theory Spec2Isabelle
  imports Complex_Main "HOL-Library.AList" "HOL-Library.Multiset"
begin

section \<open>The rule recommendation pipeline of grule.py\<close>

text \<open>
  A shallow embedding of the parts of \<^verbatim>\<open>src/grule.py\<close> that decide which rules are
  recommended for a project: the data classes, the scoped change of the working
  directory around the probe pass, the loading of the rule configuration and
  \<^verbatim>\<open>RuleEngine.recommend_rules\<close> with its deduplication and ranking.

  Python strings are modelled as \<^typ>\<open>string\<close> holding the UTF-8 bytes of the text. The
  encoding is injective and commutes with concatenation, and the engine only compares
  and concatenates strings, so equality of the modelled strings is equality of the
  Python strings. Python integers are \<^typ>\<open>int\<close>. The \<^verbatim>\<open>confidence\<close> fields are floats in
  the source; no code modelled here computes with them (every object is built with
  the default), so they are kept as \<^typ>\<open>real\<close> numbers.
\<close>

subsection \<open>String constants of the source\<close>

definition txt_core_flow :: string where
  \<comment> \<open>line 418/419: 'core development workflow rule'\<close>
  "txt_core_flow =
   [CHR 0xE6, CHR 0xA0, CHR 0xB8, CHR 0xE5, CHR 0xBF, CHR 0x83, CHR 0xE5, CHR 0xBC,
    CHR 0x80, CHR 0xE5, CHR 0x8F, CHR 0x91, CHR 0xE6, CHR 0xB5, CHR 0x81, CHR 0xE7,
    CHR 0xA8, CHR 0x8B, CHR 0xE8, CHR 0xA7, CHR 0x84, CHR 0xE5, CHR 0x88, CHR 0x99]"

definition txt_quick_wins :: string where
  \<comment> \<open>line 420 and line 403: 'quick wins strategy'\<close>
  "txt_quick_wins =
   [CHR 0xE5, CHR 0xBF, CHR 0xAB, CHR 0xE9, CHR 0x80, CHR 0x9F, CHR 0xE8, CHR 0x83,
    CHR 0x9C, CHR 0xE5, CHR 0x88, CHR 0xA9, CHR 0xE7, CHR 0xAD, CHR 0x96, CHR 0xE7,
    CHR 0x95, CHR 0xA5]"

definition txt_large_quality :: string where
  \<comment> \<open>line 428: 'large projects need strict code quality control'\<close>
  "txt_large_quality =
   [CHR 0xE5, CHR 0xA4, CHR 0xA7, CHR 0xE5, CHR 0x9E, CHR 0x8B, CHR 0xE9, CHR 0xA1,
    CHR 0xB9, CHR 0xE7, CHR 0x9B, CHR 0xAE, CHR 0xE9, CHR 0x9C, CHR 0x80, CHR 0xE8,
    CHR 0xA6, CHR 0x81, CHR 0xE4, CHR 0xB8, CHR 0xA5, CHR 0xE6, CHR 0xA0, CHR 0xBC,
    CHR 0xE7, CHR 0x9A, CHR 0x84, CHR 0xE4, CHR 0xBB, CHR 0xA3, CHR 0xE7, CHR 0xA0,
    CHR 0x81, CHR 0xE8, CHR 0xB4, CHR 0xA8, CHR 0xE9, CHR 0x87, CHR 0x8F, CHR 0xE6,
    CHR 0x8E, CHR 0xA7, CHR 0xE5, CHR 0x88, CHR 0xB6]"

definition txt_large_review :: string where
  \<comment> \<open>line 429: 'large projects need code review'\<close>
  "txt_large_review =
   [CHR 0xE5, CHR 0xA4, CHR 0xA7, CHR 0xE5, CHR 0x9E, CHR 0x8B, CHR 0xE9, CHR 0xA1,
    CHR 0xB9, CHR 0xE7, CHR 0x9B, CHR 0xAE, CHR 0xE9, CHR 0x9C, CHR 0x80, CHR 0xE8,
    CHR 0xA6, CHR 0x81, CHR 0xE4, CHR 0xBB, CHR 0xA3, CHR 0xE7, CHR 0xA0, CHR 0x81,
    CHR 0xE5, CHR 0xAE, CHR 0xA1, CHR 0xE6, CHR 0x9F, CHR 0xA5]"

definition txt_large_improve :: string where
  \<comment> \<open>line 430: 'large projects need continuous improvement'\<close>
  "txt_large_improve =
   [CHR 0xE5, CHR 0xA4, CHR 0xA7, CHR 0xE5, CHR 0x9E, CHR 0x8B, CHR 0xE9, CHR 0xA1,
    CHR 0xB9, CHR 0xE7, CHR 0x9B, CHR 0xAE, CHR 0xE9, CHR 0x9C, CHR 0x80, CHR 0xE8,
    CHR 0xA6, CHR 0x81, CHR 0xE6, CHR 0x8C, CHR 0x81, CHR 0xE7, CHR 0xBB, CHR 0xAD,
    CHR 0xE6, CHR 0x94, CHR 0xB9, CHR 0xE8, CHR 0xBF, CHR 0x9B]"

definition txt_medium_quality :: string where
  \<comment> \<open>line 434: 'medium projects need code quality checks'\<close>
  "txt_medium_quality =
   [CHR 0xE4, CHR 0xB8, CHR 0xAD, CHR 0xE5, CHR 0x9E, CHR 0x8B, CHR 0xE9, CHR 0xA1,
    CHR 0xB9, CHR 0xE7, CHR 0x9B, CHR 0xAE, CHR 0xE9, CHR 0x9C, CHR 0x80, CHR 0xE8,
    CHR 0xA6, CHR 0x81, CHR 0xE4, CHR 0xBB, CHR 0xA3, CHR 0xE7, CHR 0xA0, CHR 0x81,
    CHR 0xE8, CHR 0xB4, CHR 0xA8, CHR 0xE9, CHR 0x87, CHR 0x8F, CHR 0xE6, CHR 0xA3,
    CHR 0x80, CHR 0xE6, CHR 0x9F, CHR 0xA5]"

definition txt_medium_check :: string where
  \<comment> \<open>line 435: 'medium projects need a checking mechanism'\<close>
  "txt_medium_check =
   [CHR 0xE4, CHR 0xB8, CHR 0xAD, CHR 0xE5, CHR 0x9E, CHR 0x8B, CHR 0xE9, CHR 0xA1,
    CHR 0xB9, CHR 0xE7, CHR 0x9B, CHR 0xAE, CHR 0xE9, CHR 0x9C, CHR 0x80, CHR 0xE8,
    CHR 0xA6, CHR 0x81, CHR 0xE6, CHR 0xA3, CHR 0x80, CHR 0xE6, CHR 0x9F, CHR 0xA5,
    CHR 0xE6, CHR 0x9C, CHR 0xBA, CHR 0xE5, CHR 0x88, CHR 0xB6]"

definition txt_small_clean :: string where
  \<comment> \<open>line 439: 'small projects focus on clean code'\<close>
  "txt_small_clean =
   [CHR 0xE5, CHR 0xB0, CHR 0x8F, CHR 0xE5, CHR 0x9E, CHR 0x8B, CHR 0xE9, CHR 0xA1,
    CHR 0xB9, CHR 0xE7, CHR 0x9B, CHR 0xAE, CHR 0xE9, CHR 0x87, CHR 0x8D, CHR 0xE7,
    CHR 0x82, CHR 0xB9, CHR 0xE5, CHR 0x85, CHR 0xB3, CHR 0xE6, CHR 0xB3, CHR 0xA8,
    CHR 0xE4, CHR 0xBB, CHR 0xA3, CHR 0xE7, CHR 0xA0, CHR 0x81, CHR 0xE6, CHR 0x95,
    CHR 0xB4, CHR 0xE6, CHR 0xB4, CHR 0x81]"

definition txt_small_commit :: string where
  \<comment> \<open>line 440: 'small projects need commit conventions'\<close>
  "txt_small_commit =
   [CHR 0xE5, CHR 0xB0, CHR 0x8F, CHR 0xE5, CHR 0x9E, CHR 0x8B, CHR 0xE9, CHR 0xA1,
    CHR 0xB9, CHR 0xE7, CHR 0x9B, CHR 0xAE, CHR 0xE9, CHR 0x9C, CHR 0x80, CHR 0xE8,
    CHR 0xA6, CHR 0x81, CHR 0xE6, CHR 0x8F, CHR 0x90, CHR 0xE4, CHR 0xBA, CHR 0xA4,
    CHR 0xE8, CHR 0xA7, CHR 0x84, CHR 0xE8, CHR 0x8C, CHR 0x83]"

definition txt_swift :: string where
  \<comment> \<open>line 448: 'Swift projects need modern Swift conventions'\<close>
  "txt_swift =
   [CHR 0x53, CHR 0x77, CHR 0x69, CHR 0x66, CHR 0x74, CHR 0xE9, CHR 0xA1, CHR 0xB9,
    CHR 0xE7, CHR 0x9B, CHR 0xAE, CHR 0xE9, CHR 0x9C, CHR 0x80, CHR 0xE8, CHR 0xA6,
    CHR 0x81, CHR 0xE7, CHR 0x8E, CHR 0xB0, CHR 0xE4, CHR 0xBB, CHR 0xA3, CHR 0x53,
    CHR 0x77, CHR 0x69, CHR 0x66, CHR 0x74, CHR 0xE5, CHR 0xBC, CHR 0x80, CHR 0xE5,
    CHR 0x8F, CHR 0x91, CHR 0xE8, CHR 0xA7, CHR 0x84, CHR 0xE8, CHR 0x8C, CHR 0x83]"

definition txt_lang_suffix :: string where
  \<comment> \<open>line 452, the part of the f-string after {lang}: 'projects need code quality analysis'\<close>
  "txt_lang_suffix =
   [CHR 0xE9, CHR 0xA1, CHR 0xB9, CHR 0xE7, CHR 0x9B, CHR 0xAE, CHR 0xE9, CHR 0x9C,
    CHR 0x80, CHR 0xE8, CHR 0xA6, CHR 0x81, CHR 0xE4, CHR 0xBB, CHR 0xA3, CHR 0xE7,
    CHR 0xA0, CHR 0x81, CHR 0xE8, CHR 0xB4, CHR 0xA8, CHR 0xE9, CHR 0x87, CHR 0x8F,
    CHR 0xE5, CHR 0x88, CHR 0x86, CHR 0xE6, CHR 0x9E, CHR 0x90]"

definition txt_team_review :: string where
  \<comment> \<open>line 459: 'team projects need code review'\<close>
  "txt_team_review =
   [CHR 0xE5, CHR 0x9B, CHR 0xA2, CHR 0xE9, CHR 0x98, CHR 0x9F, CHR 0xE9, CHR 0xA1,
    CHR 0xB9, CHR 0xE7, CHR 0x9B, CHR 0xAE, CHR 0xE9, CHR 0x9C, CHR 0x80, CHR 0xE8,
    CHR 0xA6, CHR 0x81, CHR 0xE4, CHR 0xBB, CHR 0xA3, CHR 0xE7, CHR 0xA0, CHR 0x81,
    CHR 0xE5, CHR 0xAE, CHR 0xA1, CHR 0xE6, CHR 0x9F, CHR 0xA5]"

definition txt_team_changelog :: string where
  \<comment> \<open>line 460: 'team projects need a change log'\<close>
  "txt_team_changelog =
   [CHR 0xE5, CHR 0x9B, CHR 0xA2, CHR 0xE9, CHR 0x98, CHR 0x9F, CHR 0xE9, CHR 0xA1,
    CHR 0xB9, CHR 0xE7, CHR 0x9B, CHR 0xAE, CHR 0xE9, CHR 0x9C, CHR 0x80, CHR 0xE8,
    CHR 0xA6, CHR 0x81, CHR 0xE5, CHR 0x8F, CHR 0x98, CHR 0xE6, CHR 0x9B, CHR 0xB4,
    CHR 0xE8, CHR 0xAE, CHR 0xB0, CHR 0xE5, CHR 0xBD, CHR 0x95]"

definition txt_testing :: string where
  \<comment> \<open>line 466: 'a test framework exists, strengthen test quality'\<close>
  "txt_testing =
   [CHR 0xE5, CHR 0xB7, CHR 0xB2, CHR 0xE6, CHR 0x9C, CHR 0x89, CHR 0xE6, CHR 0xB5,
    CHR 0x8B, CHR 0xE8, CHR 0xAF, CHR 0x95, CHR 0xE6, CHR 0xA1, CHR 0x86, CHR 0xE6,
    CHR 0x9E, CHR 0xB6, CHR 0xEF, CHR 0xBC, CHR 0x8C, CHR 0xE5, CHR 0xA2, CHR 0x9E,
    CHR 0xE5, CHR 0xBC, CHR 0xBA, CHR 0xE6, CHR 0xB5, CHR 0x8B, CHR 0xE8, CHR 0xAF,
    CHR 0x95, CHR 0xE8, CHR 0xB4, CHR 0xA8, CHR 0xE9, CHR 0x87, CHR 0x8F]"

definition txt_git_commit :: string where
  \<comment> \<open>line 471: 'Git projects need commit conventions'\<close>
  "txt_git_commit =
   [CHR 0x47, CHR 0x69, CHR 0x74, CHR 0xE9, CHR 0xA1, CHR 0xB9, CHR 0xE7, CHR 0x9B,
    CHR 0xAE, CHR 0xE9, CHR 0x9C, CHR 0x80, CHR 0xE8, CHR 0xA6, CHR 0x81, CHR 0xE6,
    CHR 0x8F, CHR 0x90, CHR 0xE4, CHR 0xBA, CHR 0xA4, CHR 0xE8, CHR 0xA7, CHR 0x84,
    CHR 0xE8, CHR 0x8C, CHR 0x83]"

definition txt_tracker :: string where
  \<comment> \<open>line 476: 'track how well the rules work'\<close>
  "txt_tracker =
   [CHR 0xE8, CHR 0xB7, CHR 0x9F, CHR 0xE8, CHR 0xB8, CHR 0xAA, CHR 0xE8, CHR 0xA7,
    CHR 0x84, CHR 0xE5, CHR 0x88, CHR 0x99, CHR 0xE4, CHR 0xBD, CHR 0xBF, CHR 0xE7,
    CHR 0x94, CHR 0xA8, CHR 0xE6, CHR 0x95, CHR 0x88, CHR 0xE6, CHR 0x9E, CHR 0x9C]"

definition txt_desc_implement :: string where
  \<comment> \<open>line 389: 'task implementation rule'\<close>
  "txt_desc_implement =
   [CHR 0xE4, CHR 0xBB, CHR 0xBB, CHR 0xE5, CHR 0x8A, CHR 0xA1, CHR 0xE5, CHR 0xAE,
    CHR 0x9E, CHR 0xE7, CHR 0x8E, CHR 0xB0, CHR 0xE8, CHR 0xA7, CHR 0x84, CHR 0xE5,
    CHR 0x88, CHR 0x99]"

definition txt_desc_bugfix :: string where
  \<comment> \<open>line 396: 'bug fixing rule'\<close>
  "txt_desc_bugfix =
   [CHR 0x42, CHR 0x75, CHR 0x67, CHR 0xE4, CHR 0xBF, CHR 0xAE, CHR 0xE5, CHR 0xA4,
    CHR 0x8D, CHR 0xE8, CHR 0xA7, CHR 0x84, CHR 0xE5, CHR 0x88, CHR 0x99]"

subsection \<open>Data classes (lines 42--57)\<close>

record ProjectFeature =
  key :: string
  value' :: string
  description :: string
  confidence :: real

record RuleRecommendation =
  name :: string
  reason :: string
  weight :: int
  category :: string
  confidence :: real

text \<open>The constructor call \<^verbatim>\<open>RuleRecommendation(name, reason, weight, category)\<close>, which
  leaves \<^verbatim>\<open>confidence\<close> at its default 1.0.\<close>

definition mkRuleRecommendation :: "string \<Rightarrow> string \<Rightarrow> int \<Rightarrow> string \<Rightarrow> RuleRecommendation" where
  "mkRuleRecommendation n r w c =
     \<lparr>name = n, reason = r, weight = w, category = c, confidence = 1\<rparr>"

text \<open>The constructor call \<^verbatim>\<open>ProjectFeature(key, value, description)\<close>.\<close>

definition mkProjectFeature :: "string \<Rightarrow> string \<Rightarrow> string \<Rightarrow> ProjectFeature" where
  "mkProjectFeature k v d = \<lparr>key = k, value' = v, description = d, confidence = 1\<rparr>"

subsection \<open>Exceptions\<close>

text \<open>
  The exceptions the modelled code can meet. All but \<^verbatim>\<open>KeyboardInterrupt\<close> derive from
  \<^verbatim>\<open>Exception\<close>, which is what \<^verbatim>\<open>except Exception\<close> catches.
\<close>

datatype py_error =
    KeyError string
  | FileNotFoundError
  | PermissionError
  | OSError
  | UnicodeDecodeError
  | JSONDecodeError
  | RuntimeError string
  | KeyboardInterrupt

fun is_Exception :: "py_error \<Rightarrow> bool" where
  "is_Exception KeyboardInterrupt = False"
| "is_Exception _ = True"

subsection \<open>Python dictionaries\<close>

text \<open>
  \<^verbatim>\<open>feature_dict\<close> (line 414) is only read with \<^verbatim>\<open>get\<close>, so it is a map. The dict
  comprehension stores the facts in list order: a later fact with the same key
  overwrites the earlier value.
\<close>

definition feature_dict_of :: "ProjectFeature list \<Rightarrow> (string \<rightharpoonup> string)" where
  "feature_dict_of features = foldl (\<lambda>d f. d(key f \<mapsto> value' f)) Map.empty features"

definition dict_get :: "('k \<rightharpoonup> 'v) \<Rightarrow> 'k \<Rightarrow> 'v \<Rightarrow> 'v" where
  "dict_get d k dflt = (case d k of None \<Rightarrow> dflt | Some v \<Rightarrow> v)"

text \<open>
  \<^verbatim>\<open>unique_recommendations\<close> (line 480) is iterated through \<^verbatim>\<open>values()\<close>, so its
  insertion order matters: it is an association list. Assigning to a new key appends
  the entry; assigning to a key already present replaces the value where it stands,
  which is what \<^const>\<open>AList.update\<close> does. Subscripting with an absent key raises.
\<close>

type_synonym 'v odict = "(string \<times> 'v) list"

definition dict_contains :: "'v odict \<Rightarrow> string \<Rightarrow> bool" where
  "dict_contains d k = (map_of d k \<noteq> None)"

definition dict_getitem :: "'v odict \<Rightarrow> string \<Rightarrow> py_error + 'v" where
  "dict_getitem d k = (case map_of d k of None \<Rightarrow> Inl (KeyError k) | Some v \<Rightarrow> Inr v)"

definition dict_setitem :: "'v odict \<Rightarrow> string \<Rightarrow> 'v \<Rightarrow> 'v odict" where
  "dict_setitem d k v = AList.update k v d"

definition dict_values :: "'v odict \<Rightarrow> 'v list" where
  "dict_values d = map snd d"

subsection \<open>The rule blocks of recommend_rules (lines 413--477)\<close>

text \<open>Lines 417--421.\<close>

definition core_rules :: "RuleRecommendation list" where
  "core_rules =
     [mkRuleRecommendation ''implement-task'' txt_core_flow 10 ''core'',
      mkRuleRecommendation ''bug-fix'' txt_core_flow 10 ''core'',
      mkRuleRecommendation ''quick-wins'' txt_quick_wins 8 ''productivity'']"

text \<open>Lines 426--441: the \<^verbatim>\<open>if\<close>/\<^verbatim>\<open>elif\<close>/\<^verbatim>\<open>else\<close> over \<^verbatim>\<open>project_size\<close>.\<close>

definition size_rules :: "string \<Rightarrow> RuleRecommendation list" where
  "size_rules project_size =
     (if project_size = ''large'' then
        [mkRuleRecommendation ''code-analysis'' txt_large_quality 9 ''quality'',
         mkRuleRecommendation ''pr-review'' txt_large_review 8 ''collaboration'',
         mkRuleRecommendation ''continuous-improvement'' txt_large_improve 7 ''process'']
      else if project_size = ''medium'' then
        [mkRuleRecommendation ''code-analysis'' txt_medium_quality 7 ''quality'',
         mkRuleRecommendation ''check'' txt_medium_check 6 ''quality'']
      else
        [mkRuleRecommendation ''clean'' txt_small_clean 7 ''maintenance'',
         mkRuleRecommendation ''commit'' txt_small_commit 6 ''workflow''])"

text \<open>Lines 445--453: the loop over the values of the \<^verbatim>\<open>languages\<close> facts.\<close>

fun language_rules :: "string list \<Rightarrow> RuleRecommendation list" where
  "language_rules [] = []"
| "language_rules (lang # languages) =
     (if lang = ''swift'' then
        mkRuleRecommendation ''modern-swift'' txt_swift 9 ''language_specific''
          # language_rules languages
      else if lang \<in> set [''javascript'', ''typescript'', ''python'', ''java'', ''csharp''] then
        mkRuleRecommendation ''code-analysis'' (lang @ txt_lang_suffix) 7 ''quality''
          # language_rules languages
      else language_rules languages)"

text \<open>Lines 457--461.\<close>

definition team_rules :: "string \<Rightarrow> RuleRecommendation list" where
  "team_rules team_size =
     (if team_size \<in> set [''medium'', ''large''] then
        [mkRuleRecommendation ''pr-review'' txt_team_review 8 ''collaboration'',
         mkRuleRecommendation ''add-to-changelog'' txt_team_changelog 6 ''documentation'']
      else [])"

text \<open>Lines 464--472.\<close>

definition toolchain_rules :: "(string \<rightharpoonup> string) \<Rightarrow> RuleRecommendation list" where
  "toolchain_rules feature_dict =
     (if feature_dict ''has_testing'' = Some ''true''
      then [mkRuleRecommendation ''five'' txt_testing 8 ''testing''] else []) @
     (if feature_dict ''has_git'' = Some ''true''
      then [mkRuleRecommendation ''commit'' txt_git_commit 8 ''workflow''] else [])"

text \<open>Lines 475--477.\<close>

definition tracker_rule :: RuleRecommendation where
  "tracker_rule = mkRuleRecommendation ''rule-effectiveness-tracker'' txt_tracker 5 ''meta''"

text \<open>The list \<^verbatim>\<open>recommendations\<close> as it stands at line 478, before deduplication.\<close>

definition recommendations :: "ProjectFeature list \<Rightarrow> RuleRecommendation list" where
  "recommendations features =
     (let feature_dict = feature_dict_of features;
          project_size = dict_get feature_dict ''project_size'' ''small'';
          languages = map value' (filter (\<lambda>f. key f = ''languages'') features);
          team_size = dict_get feature_dict ''team_size'' ''solo''
      in core_rules @ size_rules project_size @ language_rules languages @
         team_rules team_size @ toolchain_rules feature_dict @ [tracker_rule])"

subsection \<open>Deduplication and ranking (lines 479--485)\<close>

text \<open>
  The loop of lines 481--483. The \<^verbatim>\<open>or\<close> evaluates its second operand, and with it
  the subscript \<^verbatim>\<open>unique_recommendations[rec.name]\<close>, only when the name is present.
\<close>

fun dedup_loop :: "RuleRecommendation odict \<Rightarrow> RuleRecommendation list
    \<Rightarrow> py_error + RuleRecommendation odict" where
  "dedup_loop unique [] = Inr unique"
| "dedup_loop unique (rec # recs) =
     (if \<not> dict_contains unique (name rec)
      then dedup_loop (dict_setitem unique (name rec) rec) recs
      else (case dict_getitem unique (name rec) of
              Inl e \<Rightarrow> Inl e
            | Inr old \<Rightarrow>
                if weight rec > weight old
                then dedup_loop (dict_setitem unique (name rec) rec) recs
                else dedup_loop unique recs))"

text \<open>
  \<^verbatim>\<open>sorted(values, key=lambda x: x.weight, reverse=True)\<close>: Python's sort is stable,
  and with \<^verbatim>\<open>reverse=True\<close> elements with equal keys still keep their original
  order, so it is the stable sort by the negated weight.
\<close>

definition sorted_by_weight_desc :: "RuleRecommendation list \<Rightarrow> RuleRecommendation list" where
  "sorted_by_weight_desc vs = sort_key (\<lambda>x. - weight x) vs"

definition dedup_rank :: "RuleRecommendation list \<Rightarrow> py_error + RuleRecommendation list" where
  "dedup_rank recs =
     (case dedup_loop [] recs of
        Inl e \<Rightarrow> Inl e
      | Inr unique \<Rightarrow> Inr (sorted_by_weight_desc (dict_values unique)))"

subsection \<open>The rule configuration (lines 63--70, 366--409)\<close>

text \<open>What \<^verbatim>\<open>json.load\<close> returns; a JSON object keeps its members in document order.
  Numbers with a fraction do not occur in the rule table and are left out.\<close>

datatype json =
    JNull
  | JBool bool
  | JInt int
  | JStr string
  | JList "json list"
  | JDict "(string \<times> json) list"

text \<open>Lines 383--409.\<close>

definition get_default_config :: json where
  "get_default_config =
     JDict [(''rules'', JDict
       [(''implement-task'', JDict
           [(''category'', JStr ''core''),
            (''description'', JStr txt_desc_implement),
            (''conditions'', JDict [(''always'', JBool True)]),
            (''weight'', JInt 10),
            (''tags'', JList [JStr ''essential'', JStr ''development''])]),
        (''bug-fix'', JDict
           [(''category'', JStr ''core''),
            (''description'', JStr txt_desc_bugfix),
            (''conditions'', JDict [(''always'', JBool True)]),
            (''weight'', JInt 10),
            (''tags'', JList [JStr ''essential'', JStr ''debugging''])]),
        (''quick-wins'', JDict
           [(''category'', JStr ''productivity''),
            (''description'', JStr txt_quick_wins),
            (''conditions'', JDict [(''always'', JBool True)]),
            (''weight'', JInt 8),
            (''tags'', JList [JStr ''productivity'', JStr ''optimization''])])])]"

text \<open>
  What \<^verbatim>\<open>_load_config\<close> meets at \<^verbatim>\<open>config_path\<close>. The test
  \<^verbatim>\<open>self.config_path.exists()\<close> of line 373 stands before the \<^verbatim>\<open>try\<close>:
  \<^verbatim>\<open>Path.exists\<close> answers \<^verbatim>\<open>False\<close> for a missing file but raises every other
  \<^verbatim>\<open>OSError\<close> of the underlying \<^verbatim>\<open>stat\<close>, such as \<^verbatim>\<open>PermissionError\<close> for a
  directory that may not be searched or \<^verbatim>\<open>OSError\<close> for a name that is too long. When
  the file is there, \<^verbatim>\<open>open\<close> followed by \<^verbatim>\<open>json.load\<close> either raises or yields a
  document.
\<close>

datatype config_file =
    Unreachable py_error
  | Missing
  | Present "py_error + json"

text \<open>
  Lines 371--381. An exception of \<^verbatim>\<open>exists()\<close> propagates. Within the \<^verbatim>\<open>try\<close>,
  \<^verbatim>\<open>except Exception\<close> logs a warning and returns the defaults; an exception outside
  \<^verbatim>\<open>Exception\<close> is not caught.
\<close>

fun load_config :: "config_file \<Rightarrow> py_error + json" where
  "load_config (Unreachable e) = Inl e"
| "load_config Missing = Inr get_default_config"
| "load_config (Present (Inr document)) = Inr document"
| "load_config (Present (Inl e)) =
     (if is_Exception e then Inr get_default_config else Inl e)"

text \<open>
  \<^verbatim>\<open>PathManager.__init__\<close> (lines 66--70). Paths are lists of components. The three
  calls \<^verbatim>\<open>Path.cwd()\<close>, \<^verbatim>\<open>Path(sys.argv[0]).resolve()\<close> and \<^verbatim>\<open>Path.home()\<close> ask the
  operating system and can raise; their outcomes are parameters.
\<close>

record PathManager =
  original_cwd :: "string list"
  script_path :: "string list"
  script_dir :: "string list"
  agent_rules_dir :: "string list"

record path_env =
  cwd_outcome :: "py_error + string list"
  resolve_outcome :: "py_error + string list"
  home_outcome :: "py_error + string list"

definition PathManager_init :: "path_env \<Rightarrow> py_error + PathManager" where
  "PathManager_init env =
     (case cwd_outcome env of
        Inl e \<Rightarrow> Inl e
      | Inr c \<Rightarrow>
          (case resolve_outcome env of
             Inl e \<Rightarrow> Inl e
           | Inr sp \<Rightarrow>
               (case home_outcome env of
                  Inl e \<Rightarrow> Inl e
                | Inr h \<Rightarrow>
                    Inr \<lparr>original_cwd = c, script_path = sp, script_dir = butlast sp,
                         agent_rules_dir = h @ [''.agent-rules'']\<rparr>)))"

record RuleEngine =
  path_manager :: PathManager
  config_path :: "string list"
  config :: json

text \<open>
  Lines 366--369: \<^verbatim>\<open>__init__(self, config_path=None)\<close>, for the outcomes of the path
  queries and for what is found at the configuration path.
\<close>

definition RuleEngine_init :: "path_env \<Rightarrow> string list option \<Rightarrow> config_file
    \<Rightarrow> py_error + RuleEngine" where
  "RuleEngine_init env config_path_arg file =
     (case PathManager_init env of
        Inl e \<Rightarrow> Inl e
      | Inr pm \<Rightarrow>
          (let cp = (case config_path_arg of
                       None \<Rightarrow> agent_rules_dir pm @ [''rule-config.json'']
                     | Some p \<Rightarrow> p)
           in case load_config file of
                Inl e \<Rightarrow> Inl e
              | Inr c \<Rightarrow> Inr \<lparr>path_manager = pm, config_path = cp, config = c\<rparr>))"

text \<open>Reading the rule table of a configuration document:
  \<^verbatim>\<open>config["rules"][rule_id]["weight"]\<close> and \<^verbatim>\<open>["category"]\<close>, where present.\<close>

fun json_member :: "json \<Rightarrow> string \<Rightarrow> json option" where
  "json_member (JDict members) k = map_of members k"
| "json_member _ k = None"

definition rule_entry :: "json \<Rightarrow> string \<Rightarrow> json option" where
  "rule_entry cfg rule_id =
     (case json_member cfg ''rules'' of
        None \<Rightarrow> None
      | Some rules \<Rightarrow> json_member rules rule_id)"

definition rule_weight :: "json \<Rightarrow> string \<Rightarrow> int option" where
  "rule_weight cfg rule_id =
     (case rule_entry cfg rule_id of
        None \<Rightarrow> None
      | Some entry \<Rightarrow> (case json_member entry ''weight'' of Some (JInt w) \<Rightarrow> Some w | _ \<Rightarrow> None))"

definition rule_category :: "json \<Rightarrow> string \<Rightarrow> string option" where
  "rule_category cfg rule_id =
     (case rule_entry cfg rule_id of
        None \<Rightarrow> None
      | Some entry \<Rightarrow> (case json_member entry ''category'' of Some (JStr c) \<Rightarrow> Some c | _ \<Rightarrow> None))"

subsection \<open>recommend_rules (lines 411--485)\<close>

definition recommend_rules :: "RuleEngine \<Rightarrow> ProjectFeature list
    \<Rightarrow> py_error + RuleRecommendation list" where
  "recommend_rules self features = dedup_rank (recommendations features)"

subsection \<open>The scoped working directory and analyze (lines 81--89, 142--153)\<close>


datatype dir_status = Directory | Absent | NotSearchable

record pystate =
  cwd :: "string list"
  features :: "ProjectFeature list"
  dirs :: "string list \<Rightarrow> dir_status"









subsection \<open>Notions used to state the properties\<close>

text \<open>The position at which a rule id is first emitted in a list of candidates (the
  length of the list when the id does not occur).\<close>

definition first_pos :: "string \<Rightarrow> RuleRecommendation list \<Rightarrow> nat" where
  "first_pos n cs = length (takeWhile (\<lambda>c. name c \<noteq> n) cs)"

text \<open>One round of the loop of lines 481--483 without the exception branch, which
  \<open>dedup_loop_foldl\<close> below shows is never taken.\<close>

definition dedup_step :: "RuleRecommendation odict \<Rightarrow> RuleRecommendation
    \<Rightarrow> RuleRecommendation odict" where
  "dedup_step d r =
     (case map_of d (name r) of
        None \<Rightarrow> AList.update (name r) r d
      | Some old \<Rightarrow> if weight r > weight old then AList.update (name r) r d else d)"

text \<open>A candidate \<open>v\<close> is \<^emph>\<open>placed\<close> in \<open>cs\<close> when it occurs there after only strictly
  lighter candidates of its id and before none that is heavier.\<close>

definition placed :: "RuleRecommendation \<Rightarrow> RuleRecommendation list \<Rightarrow> bool" where
  "placed v cs = (\<exists>pre post. cs = pre @ v # post \<and>
      (\<forall>c\<in>set pre. name c = name v \<longrightarrow> weight c < weight v) \<and>
      (\<forall>c\<in>set post. name c = name v \<longrightarrow> weight c \<le> weight v))"

text \<open>The loop invariant: the dictionary built from the candidates \<open>cs\<close> read so far.\<close>

definition dedup_inv :: "RuleRecommendation list \<Rightarrow> RuleRecommendation odict \<Rightarrow> bool" where
  "dedup_inv cs d \<longleftrightarrow>
     distinct (map fst d) \<and>
     set (map fst d) = name ` set cs \<and>
     (\<forall>(k, v)\<in>set d. name v = k \<and> placed v cs) \<and>
     sorted_wrt (\<lambda>a b. first_pos a cs < first_pos b cs) (map fst d)"

text \<open>The engine that the constructor builds, in an environment where the path queries
  succeed, when no configuration file exists.\<close>

definition usual_env :: path_env where
  "usual_env =
     \<lparr>cwd_outcome = Inr [''home'', ''user'', ''work''],
      resolve_outcome = Inr [''usr'', ''bin'', ''grule.py''],
      home_outcome = Inr [''home'', ''user'']\<rparr>"

definition usual_paths :: PathManager where
  "usual_paths =
     \<lparr>original_cwd = [''home'', ''user'', ''work''],
      script_path = [''usr'', ''bin'', ''grule.py''],
      script_dir = [''usr'', ''bin''],
      agent_rules_dir = [''home'', ''user'', ''.agent-rules'']\<rparr>"

definition default_engine :: RuleEngine where
  "default_engine =
     \<lparr>path_manager = usual_paths,
      config_path = [''home'', ''user'', ''.agent-rules'', ''rule-config.json''],
      config = get_default_config\<rparr>"

text \<open>A configuration document that assigns \<^verbatim>\<open>implement-task\<close> another weight and
  category than the code does.\<close>

definition override_config :: json where
  "override_config =
     JDict [(''rules'', JDict
       [(''implement-task'', JDict [(''category'', JStr ''misc''), (''weight'', JInt 1)])])]"

definition override_engine :: RuleEngine where
  "override_engine = default_engine\<lparr>config := override_config\<rparr>"

text \<open>The languages for which line 450 proposes \<^verbatim>\<open>code-analysis\<close>.\<close>

definition code_languages :: "string list" where
  "code_languages = [''javascript'', ''typescript'', ''python'', ''java'', ''csharp'']"

text \<open>Two profiles that agree on the last fact of every key the engine reads and on
  the set of language values, in different orders.\<close>

definition profile_a :: "ProjectFeature list" where
  "profile_a =
     [mkProjectFeature ''languages'' ''python'' [],
      mkProjectFeature ''project_size'' ''medium'' [],
      mkProjectFeature ''languages'' ''swift'' [],
      mkProjectFeature ''has_git'' ''true'' [],
      mkProjectFeature ''project_size'' ''small'' [],
      mkProjectFeature ''languages'' ''java'' []]"

definition profile_b :: "ProjectFeature list" where
  "profile_b =
     [mkProjectFeature ''project_size'' ''small'' [],
      mkProjectFeature ''languages'' ''java'' [],
      mkProjectFeature ''frameworks'' ''react'' [],
      mkProjectFeature ''languages'' ''swift'' [],
      mkProjectFeature ''has_git'' ''true'' [],
      mkProjectFeature ''languages'' ''python'' []]"

text \<open>The profile of the scenario of the specification's section 8.\<close>

definition scenario :: "ProjectFeature list" where
  "scenario =
     [mkProjectFeature ''project_size'' ''large'' [],
      mkProjectFeature ''languages'' ''python'' [],
      mkProjectFeature ''team_size'' ''large'' [],
      mkProjectFeature ''has_testing'' ''true'' [],
      mkProjectFeature ''has_git'' ''true'' []]"

lemmas rule_block_defs =
  recommendations_def feature_dict_of_def dict_get_def core_rules_def size_rules_def
  team_rules_def toolchain_rules_def tracker_rule_def mkRuleRecommendation_def
  mkProjectFeature_def

lemmas dedup_rank_defs =
  dedup_rank_def dict_contains_def dict_getitem_def dict_setitem_def dict_values_def
  sorted_by_weight_desc_def

section \<open>Deduplication and ranking\<close>

lemma dedup_loop_foldl: "dedup_loop d cs = Inr (foldl dedup_step d cs)"
  by (induction cs arbitrary: d)
     (auto simp: dedup_step_def dict_contains_def dict_getitem_def dict_setitem_def
           split: option.splits)

lemma first_pos_append_in:
  "n \<in> name ` set cs \<Longrightarrow> first_pos n (cs @ ds) = first_pos n cs"
  by (auto simp: first_pos_def takeWhile_append)

lemma first_pos_append_notin:
  "n \<notin> name ` set cs \<Longrightarrow> first_pos n (cs @ ds) = length cs + first_pos n ds"
  by (auto simp: first_pos_def takeWhile_append)

lemma first_pos_less: "n \<in> name ` set cs \<Longrightarrow> first_pos n cs < length cs"
  unfolding first_pos_def by (induction cs) auto


lemma placed_mem: "placed v cs \<Longrightarrow> v \<in> set cs"
  by (auto simp: placed_def)

lemma placed_max: "placed v cs \<Longrightarrow> c \<in> set cs \<Longrightarrow> name c = name v \<Longrightarrow> weight c \<le> weight v"
  by (fastforce simp: placed_def)

lemma placed_snoc_other: "placed v cs \<Longrightarrow> name x \<noteq> name v \<Longrightarrow> placed v (cs @ [x])"
  unfolding placed_def
  apply (elim exE conjE)
  subgoal for pre post
    by (rule exI[of _ pre], rule exI[of _ "post @ [x]"]) auto
  done

lemma placed_snoc_le: "placed v cs \<Longrightarrow> weight x \<le> weight v \<Longrightarrow> placed v (cs @ [x])"
  unfolding placed_def
  apply (elim exE conjE)
  subgoal for pre post
    by (rule exI[of _ pre], rule exI[of _ "post @ [x]"]) auto
  done

lemma placed_snoc_new:
  "\<forall>c\<in>set cs. name c = name x \<longrightarrow> weight c < weight x \<Longrightarrow> placed x (cs @ [x])"
  unfolding placed_def
  by (rule exI[of _ cs], rule exI[of _ "[]"]) auto


lemma set_update_subset: "set (AList.update k v d) \<subseteq> insert (k, v) (set d)"
  by (induction d) auto

lemma update_absent: "k \<notin> fst ` set d \<Longrightarrow> AList.update k v d = d @ [(k, v)]"
  by (induction d) auto

lemma update_present_keys: "k \<in> fst ` set d \<Longrightarrow> map fst (AList.update k v d) = map fst d"
  by (simp add: update_keys)

lemma sorted_wrt_first_pos_snoc:
  assumes "sorted_wrt (\<lambda>a b. first_pos a cs < first_pos b cs) ks" "set ks \<subseteq> name ` set cs"
  shows "sorted_wrt (\<lambda>a b. first_pos a (cs @ [x]) < first_pos b (cs @ [x])) ks"
proof -
  have "\<And>a b. a \<in> set ks \<Longrightarrow> b \<in> set ks \<Longrightarrow> first_pos a cs < first_pos b cs
      \<Longrightarrow> first_pos a (cs @ [x]) < first_pos b (cs @ [x])"
    using assms(2) by (simp add: first_pos_append_in subset_iff)
  then show ?thesis
    by (rule sorted_wrt_mono_rel[OF _ assms(1)])
qed

lemma dedup_inv_Nil: "dedup_inv [] []"
  by (simp add: dedup_inv_def)

lemma dedup_inv_step:
  assumes inv: "dedup_inv cs d"
  shows "dedup_inv (cs @ [x]) (dedup_step d x)"
proof -
  from inv have dist: "distinct (map fst d)" and keys: "set (map fst d) = name ` set cs"
    and vals: "\<And>k v. (k, v) \<in> set d \<Longrightarrow> name v = k \<and> placed v cs"
    and srt: "sorted_wrt (\<lambda>a b. first_pos a cs < first_pos b cs) (map fst d)"
    by (auto simp: dedup_inv_def)
  have srt': "sorted_wrt (\<lambda>a b. first_pos a (cs @ [x]) < first_pos b (cs @ [x])) (map fst d)"
    using srt keys by (intro sorted_wrt_first_pos_snoc) auto
  show ?thesis
  proof (cases "map_of d (name x)")
    case None
    then have notin: "name x \<notin> fst ` set d" by (simp add: map_of_eq_None_iff)
    then have new: "name x \<notin> name ` set cs" using keys by simp
    have step: "dedup_step d x = d @ [(name x, x)]"
      using None notin by (simp add: dedup_step_def update_absent)
    have px: "placed x (cs @ [x])"
    proof (rule placed_snoc_new, intro ballI impI)
      fix c assume "c \<in> set cs" "name c = name x"
      then have "name x \<in> name ` set cs" by (metis imageI)
      with new show "weight c < weight x" by simp
    qed
    have pold: "\<And>k v. (k, v) \<in> set d \<Longrightarrow> name v = k \<and> placed v (cs @ [x])"
    proof -
      fix k v assume kv: "(k, v) \<in> set d"
      then have "name v = k" "placed v cs" using vals by auto
      moreover have "k \<in> fst ` set d" using kv by force
      then have "name x \<noteq> k" using notin by auto
      ultimately show "name v = k \<and> placed v (cs @ [x])"
        by (auto intro: placed_snoc_other)
    qed
    have last: "\<forall>k\<in>set (map fst d). first_pos k (cs @ [x]) < first_pos (name x) (cs @ [x])"
    proof
      fix k assume "k \<in> set (map fst d)"
      then have kin: "k \<in> name ` set cs" using keys by simp
      have "first_pos k (cs @ [x]) = first_pos k cs" using kin by (rule first_pos_append_in)
      moreover have "first_pos k cs < length cs" using kin by (rule first_pos_less)
      moreover have "first_pos (name x) [x] = 0" by (simp add: first_pos_def)
      then have "first_pos (name x) (cs @ [x]) = length cs"
        using first_pos_append_notin[OF new, of "[x]"] by simp
      ultimately show "first_pos k (cs @ [x]) < first_pos (name x) (cs @ [x])" by simp
    qed
    show ?thesis
      unfolding dedup_inv_def step
      using dist notin keys px pold srt' last
      by (auto simp: sorted_wrt_append)
  next
    case (Some old)
    then have oldin: "(name x, old) \<in> set d" by (rule map_of_SomeD)
    then have isin: "name x \<in> fst ` set d" by force
    have pold: "name old = name x" "placed old cs" using vals[OF oldin] by auto
    show ?thesis
    proof (cases "weight x > weight old")
      case True
      have step: "dedup_step d x = AList.update (name x) x d"
        using Some True by (simp add: dedup_step_def)
      have k': "map fst (AList.update (name x) x d) = map fst d"
        using isin by (rule update_present_keys)
      have px: "placed x (cs @ [x])"
      proof (rule placed_snoc_new, intro ballI impI)
        fix c assume "c \<in> set cs" "name c = name x"
        then have "weight c \<le> weight old" using pold by (auto intro: placed_max)
        then show "weight c < weight x" using True by simp
      qed
      have pv: "\<And>k v. (k, v) \<in> set (AList.update (name x) x d) \<Longrightarrow> name v = k \<and> placed v (cs @ [x])"
      proof -
        fix k v assume kv: "(k, v) \<in> set (AList.update (name x) x d)"
        have d': "distinct (map fst (AList.update (name x) x d))" using dist k' by simp
        from kv d' have "map_of (AList.update (name x) x d) k = Some v" by simp
        then consider "k = name x" "v = x" | "k \<noteq> name x" "map_of d k = Some v"
          by (auto simp: update_Some_unfold)
        then show "name v = k \<and> placed v (cs @ [x])"
        proof cases
          case 1 then show ?thesis using px by simp
        next
          case 2
          then have "(k, v) \<in> set d" by (auto dest: map_of_SomeD)
          then have "name v = k" "placed v cs" using vals by auto
          then show ?thesis using 2(1) by (auto intro: placed_snoc_other)
        qed
      qed
      show ?thesis
        unfolding dedup_inv_def step k'
        using dist keys isin pv srt' by auto
    next
      case False
      have step: "dedup_step d x = d" using Some False by (simp add: dedup_step_def)
      have pv: "\<And>k v. (k, v) \<in> set d \<Longrightarrow> name v = k \<and> placed v (cs @ [x])"
      proof -
        fix k v assume kv: "(k, v) \<in> set d"
        then have nv: "name v = k" "placed v cs" using vals by auto
        show "name v = k \<and> placed v (cs @ [x])"
        proof (cases "k = name x")
          case True
          then have "map_of d k = Some v" "map_of d k = Some old" using kv dist Some by auto
          then have "v = old" by simp
          then show ?thesis using nv False by (auto intro: placed_snoc_le)
        next
          case False then show ?thesis using nv by (auto intro: placed_snoc_other)
        qed
      qed
      show ?thesis
        unfolding dedup_inv_def step
        using dist keys isin pv srt' by auto
    qed
  qed
qed

lemma dedup_inv_foldl: "dedup_inv cs (foldl dedup_step [] cs)"
proof (induction cs rule: rev_induct)
  case Nil show ?case by (simp add: dedup_inv_Nil)
next
  case (snoc x xs) then show ?case by (simp add: dedup_inv_step)
qed

lemma sorted_wrt_ties:
  assumes "\<And>k. sorted_wrt R (filter (\<lambda>x. f x = k) xs)"
  shows "sorted_wrt (\<lambda>a b. f a = f b \<longrightarrow> R a b) xs"
  using assms
proof (induction xs)
  case Nil
  show ?case by simp
next
  case (Cons x xs)
  have tl: "sorted_wrt R (filter (\<lambda>y. f y = k) xs)" for k
    using Cons.prems[of k] by (cases "f x = k") auto
  have hd: "R x y" if "y \<in> set xs" "f x = f y" for y
    using Cons.prems[of "f x"] that by auto
  show ?case
    using Cons.IH[OF tl] hd by auto
qed

lemma sorted_wrt_conj:
  "sorted_wrt P xs \<Longrightarrow> sorted_wrt Q xs \<Longrightarrow> sorted_wrt (\<lambda>a b. P a b \<and> Q a b) xs"
  by (induction xs) auto

lemma sorted_by_weight_desc_set: "set (sorted_by_weight_desc vs) = set vs"
  by (simp add: sorted_by_weight_desc_def)

lemma sorted_by_weight_desc_distinct:
  "distinct (map name vs) \<Longrightarrow> distinct (map name (sorted_by_weight_desc vs))"
  by (simp add: sorted_by_weight_desc_def distinct_map)

lemma sorted_by_weight_desc_noninc:
  "sorted_wrt (\<lambda>a b. weight a \<ge> weight b) (sorted_by_weight_desc vs)"
proof -
  have "sorted (map (\<lambda>x. - weight x) (sort_key (\<lambda>x. - weight x) vs))"
    by (rule sorted_sort_key)
  then show ?thesis
    by (simp add: sorted_by_weight_desc_def sorted_map)
qed

lemma sorted_by_weight_desc_stable:
  assumes "sorted_wrt R vs"
  shows "sorted_wrt (\<lambda>a b. weight a = weight b \<longrightarrow> R a b) (sorted_by_weight_desc vs)"
proof -
  have "sorted_wrt R (filter (\<lambda>x. - weight x = k) (sorted_by_weight_desc vs))" for k
    unfolding sorted_by_weight_desc_def sort_key_stable
    using assms by (rule sorted_wrt_filter)
  then have "sorted_wrt (\<lambda>a b. - weight a = - weight b \<longrightarrow> R a b) (sorted_by_weight_desc vs)"
    by (rule sorted_wrt_ties)
  then show ?thesis by simp
qed

lemma dedup_values:
  assumes "dedup_inv cs d"
  shows "map name (dict_values d) = map fst d"
    and "set (dict_values d) \<subseteq> {v. placed v cs}"
  using assms by (auto simp: dedup_inv_def dict_values_def)

text \<open>What the ranked list of any candidate list looks like.\<close>

lemma dedup_rank_Inr:
  "dedup_rank cs = Inr (sorted_by_weight_desc (dict_values (foldl dedup_step [] cs)))"
  by (simp add: dedup_rank_def dedup_loop_foldl)

lemma dedup_rank_facts:
  assumes "dedup_rank cs = Inr out"
  shows "distinct (map name out)"
    and "name ` set out = name ` set cs"
    and "\<And>r. r \<in> set out \<Longrightarrow> placed r cs"
    and "sorted_wrt (\<lambda>a b. weight a \<ge> weight b \<and>
           (weight a = weight b \<longrightarrow> first_pos (name a) cs < first_pos (name b) cs)) out"
proof -
  define d where "d = foldl dedup_step [] cs"
  have inv: "dedup_inv cs d" unfolding d_def by (rule dedup_inv_foldl)
  have out: "out = sorted_by_weight_desc (dict_values d)"
    using assms by (simp add: dedup_rank_Inr d_def)
  have names: "map name (dict_values d) = map fst d" using inv by (rule dedup_values)
  show "distinct (map name out)"
    unfolding out using inv names by (intro sorted_by_weight_desc_distinct) (simp add: dedup_inv_def)
  have "name ` set out = set (map name (dict_values d))"
    unfolding out by (simp add: sorted_by_weight_desc_set)
  then show "name ` set out = name ` set cs"
    using inv names by (simp add: dedup_inv_def)
  show "placed r cs" if "r \<in> set out" for r
    using that dedup_values(2)[OF inv] unfolding out by (auto simp: sorted_by_weight_desc_set)
  have "sorted_wrt (\<lambda>a b. first_pos a cs < first_pos b cs) (map name (dict_values d))"
    using inv names by (simp add: dedup_inv_def)
  then have "sorted_wrt (\<lambda>a b. first_pos (name a) cs < first_pos (name b) cs) (dict_values d)"
    by (simp add: sorted_wrt_map)
  then have "sorted_wrt (\<lambda>a b. weight a = weight b \<longrightarrow>
       first_pos (name a) cs < first_pos (name b) cs) out"
    unfolding out by (rule sorted_by_weight_desc_stable)
  then show "sorted_wrt (\<lambda>a b. weight a \<ge> weight b \<and>
           (weight a = weight b \<longrightarrow> first_pos (name a) cs < first_pos (name b) cs)) out"
    unfolding out using sorted_by_weight_desc_noninc by (intro sorted_wrt_conj)
qed

lemma placed_Max:
  assumes "placed r cs"
  shows "weight r = Max {weight c |c. c \<in> set cs \<and> name c = name r}"
proof -
  have fin: "finite {weight c |c. c \<in> set cs \<and> name c = name r}" by simp
  have "weight r \<in> {weight c |c. c \<in> set cs \<and> name c = name r}"
    using placed_mem[OF assms] by auto
  moreover have "\<And>w. w \<in> {weight c |c. c \<in> set cs \<and> name c = name r} \<Longrightarrow> w \<le> weight r"
    using placed_max[OF assms] by auto
  ultimately show ?thesis using fin by (metis (no_types, lifting) Max_eqI)
qed

lemma dedup_rank_spec:
  "\<exists>out. dedup_rank cs = Inr out \<and>
     distinct (map name out) \<and>
     name ` set out = name ` set cs \<and>
     (\<forall>r\<in>set out. r \<in> set cs \<and>
        weight r = Max {weight c |c. c \<in> set cs \<and> name c = name r}) \<and>
     sorted_wrt (\<lambda>a b. weight a \<ge> weight b \<and>
        (weight a = weight b \<longrightarrow> first_pos (name a) cs < first_pos (name b) cs)) out"
proof -
  obtain out where out: "dedup_rank cs = Inr out" by (simp add: dedup_rank_Inr)
  note f = dedup_rank_facts[OF out]
  have "\<forall>r\<in>set out. r \<in> set cs \<and>
        weight r = Max {weight c |c. c \<in> set cs \<and> name c = name r}"
    using f(3) by (auto intro: placed_mem placed_Max)
  with out f(1,2,4) show ?thesis by blast
qed

text \<open>
  Claim C1. For every engine and every profile \<open>fs\<close>, \<^verbatim>\<open>recommend_rules\<close> returns a list in
  which each rule id occurs at most once (and exactly the ids among the candidates of
  lines 413--477 occur), every returned candidate is one of those candidates and
  carries the maximum weight proposed for its id, and the list is ordered by
  non-increasing weight, candidates of equal weight standing in the order in which
  their ids were first emitted. The same holds of the deduplication and ranking of
  lines 479--485 applied to any list of candidates \<open>cs\<close>.
\<close>

theorem recommend_rules_unique_max_sorted:
  "(\<exists>out. recommend_rules self fs = Inr out \<and>
     distinct (map name out) \<and>
     name ` set out = name ` set (recommendations fs) \<and>
     (\<forall>r\<in>set out. r \<in> set (recommendations fs) \<and>
        weight r = Max {weight c |c. c \<in> set (recommendations fs) \<and> name c = name r}) \<and>
     sorted_wrt (\<lambda>a b. weight a \<ge> weight b \<and>
        (weight a = weight b \<longrightarrow>
           first_pos (name a) (recommendations fs)
             < first_pos (name b) (recommendations fs))) out) \<and>
   (\<exists>out. dedup_rank cs = Inr out \<and>
     distinct (map name out) \<and>
     name ` set out = name ` set cs \<and>
     (\<forall>r\<in>set out. r \<in> set cs \<and>
        weight r = Max {weight c |c. c \<in> set cs \<and> name c = name r}) \<and>
     sorted_wrt (\<lambda>a b. weight a \<ge> weight b \<and>
        (weight a = weight b \<longrightarrow> first_pos (name a) cs < first_pos (name b) cs)) out)"
  unfolding recommend_rules_def
  by (rule conjI) (rule dedup_rank_spec)+

theorem recommend_rules_unique_max_sorted_witness:
  "(\<exists>out. recommend_rules default_engine scenario = Inr out \<and>
      distinct (map name out) \<and>
      map weight out = [10, 10, 9, 8, 8, 8, 8, 7, 6, 5]) \<and>
   (\<exists>out. dedup_rank
       [mkRuleRecommendation ''a'' ''first'' 1 ''x'',
        mkRuleRecommendation ''b'' ''only'' 3 ''x'',
        mkRuleRecommendation ''a'' ''second'' 3 ''x'',
        mkRuleRecommendation ''c'' ''only'' 7 ''x'',
        mkRuleRecommendation ''b'' ''late'' 3 ''y''] = Inr out \<and>
     distinct (map name out) \<and>
     map name out = [''c'', ''a'', ''b''] \<and>
     map weight out = [7, 3, 3] \<and>
     map reason out = [''only'', ''second'', ''only''])"
proof -
  let ?cs = "[mkRuleRecommendation ''a'' ''first'' 1 ''x'',
        mkRuleRecommendation ''b'' ''only'' 3 ''x'',
        mkRuleRecommendation ''a'' ''second'' 3 ''x'',
        mkRuleRecommendation ''c'' ''only'' 7 ''x'',
        mkRuleRecommendation ''b'' ''late'' 3 ''y'']"
  note T = recommend_rules_unique_max_sorted[of default_engine scenario ?cs]
  from T[THEN conjunct1]
  obtain res where res: "recommend_rules default_engine scenario = Inr res"
    and rdist: "distinct (map name res)"
    by (elim exE conjE) (rule that; assumption)
  have "\<exists>res'. recommend_rules default_engine scenario = Inr res' \<and>
      map weight res' = [10, 10, 9, 8, 8, 8, 8, 7, 6, 5]"
    by (simp add: recommend_rules_def scenario_def rule_block_defs dedup_rank_defs)
  then obtain res' where r': "recommend_rules default_engine scenario = Inr res'"
      "map weight res' = [10, 10, 9, 8, 8, 8, 8, 7, 6, 5]" by (elim exE conjE)
  from res r'(1) have "res' = res" by simp
  with r'(2) have rw: "map weight res = [10, 10, 9, 8, 8, 8, 8, 7, 6, 5]" by (simp only:)
  have 1: "\<exists>out. recommend_rules default_engine scenario = Inr out \<and>
      distinct (map name out) \<and> map weight out = [10, 10, 9, 8, 8, 8, 8, 7, 6, 5]"
    by (rule exI[of _ res]) (intro conjI res rdist rw)
  from T[THEN conjunct2]
  obtain out where out: "dedup_rank ?cs = Inr out" and dist: "distinct (map name out)"
    by (elim exE conjE) (rule that; assumption)
  have ev: "dedup_rank ?cs =
      Inr [mkRuleRecommendation ''c'' ''only'' 7 ''x'',
           mkRuleRecommendation ''a'' ''second'' 3 ''x'',
           mkRuleRecommendation ''b'' ''only'' 3 ''x'']"
    by (simp add: dedup_rank_defs mkRuleRecommendation_def)
  have eq: "out = [mkRuleRecommendation ''c'' ''only'' 7 ''x'',
           mkRuleRecommendation ''a'' ''second'' 3 ''x'',
           mkRuleRecommendation ''b'' ''only'' 3 ''x'']"
    using out unfolding ev by simp
  have vals: "map name out = [''c'', ''a'', ''b'']" "map weight out = [7, 3, 3]"
      "map reason out = [''only'', ''second'', ''only'']"
    unfolding eq by (simp_all add: mkRuleRecommendation_def)
  have 2: "\<exists>out. dedup_rank ?cs = Inr out \<and> distinct (map name out) \<and>
     map name out = [''c'', ''a'', ''b''] \<and> map weight out = [7, 3, 3] \<and>
     map reason out = [''only'', ''second'', ''only'']"
    by (rule exI[of _ out]) (intro conjI out dist vals)
  from 1 2 show ?thesis by (rule conjI)
qed

lemma dedup_rank_pair:
  assumes "name a = name b"
  shows "dedup_rank [a, b] = Inr [if weight b > weight a then b else a]"
  using assms by (simp add: dedup_rank_defs)

lemma dict_getitem_setitem: "dict_getitem (dict_setitem unique k v) k = Inr v"
  by (simp add: dict_getitem_def dict_setitem_def update_conv')

lemma dedup_loop_present:
  assumes "dict_getitem unique (name rec) = Inr old"
  shows "dedup_loop unique (rec # recs) =
     dedup_loop (if weight rec > weight old then dict_setitem unique (name rec) rec else unique) recs"
  using assms by (auto simp: dict_getitem_def dict_contains_def split: option.splits)

text \<open>
  Claim C3. A stored candidate is replaced only by a later candidate of the same id
  whose weight is strictly greater, and then the later candidate is stored whole, with
  its reason and category; a later candidate of equal or lower weight leaves the
  first-seen one in place. It is stated for two candidates sharing an id, for one round
  of the loop, and for a whole list: a retained candidate stands in the input after only
  strictly lighter candidates of its id and before none that is heavier.
\<close>

theorem dedup_replaces_only_strictly_heavier:
  "(name a = name b \<longrightarrow> dedup_rank [a, b] = Inr [if weight b > weight a then b else a]) \<and>
   (\<forall>old. dict_getitem unique (name rec) = Inr old \<longrightarrow>
      dedup_loop unique (rec # recs) =
        dedup_loop (if weight rec > weight old
                    then dict_setitem unique (name rec) rec else unique) recs) \<and>
   dict_getitem (dict_setitem unique (name rec) rec) (name rec) = Inr rec \<and>
   (\<forall>out r. dedup_rank cs = Inr out \<and> r \<in> set out \<longrightarrow>
      (\<exists>pre post. cs = pre @ r # post \<and>
         (\<forall>c\<in>set pre. name c = name r \<longrightarrow> weight c < weight r) \<and>
         (\<forall>c\<in>set post. name c = name r \<longrightarrow> weight c \<le> weight r)))"
proof (intro conjI allI impI)
  show "dedup_rank [a, b] = Inr [if weight b > weight a then b else a]" if "name a = name b"
    using that by (rule dedup_rank_pair)
  show "dedup_loop unique (rec # recs) =
        dedup_loop (if weight rec > weight old
                    then dict_setitem unique (name rec) rec else unique) recs"
    if "dict_getitem unique (name rec) = Inr old" for old
    using that by (rule dedup_loop_present)
  show "dict_getitem (dict_setitem unique (name rec) rec) (name rec) = Inr rec"
    by (rule dict_getitem_setitem)
  show "\<exists>pre post. cs = pre @ r # post \<and>
         (\<forall>c\<in>set pre. name c = name r \<longrightarrow> weight c < weight r) \<and>
         (\<forall>c\<in>set post. name c = name r \<longrightarrow> weight c \<le> weight r)"
    if "dedup_rank cs = Inr out \<and> r \<in> set out" for out r
  proof -
    have "placed r cs" using that dedup_rank_facts(3)[of cs out r] by simp
    then show ?thesis unfolding placed_def .
  qed
qed

theorem dedup_replaces_only_strictly_heavier_witness:
  "dedup_rank [mkRuleRecommendation ''x'' ''first'' 5 ''c1'',
               mkRuleRecommendation ''x'' ''later'' 5 ''c2'']
     = Inr [mkRuleRecommendation ''x'' ''first'' 5 ''c1''] \<and>
   dedup_rank [mkRuleRecommendation ''x'' ''first'' 5 ''c1'',
               mkRuleRecommendation ''x'' ''heavier'' 6 ''c2'']
     = Inr [mkRuleRecommendation ''x'' ''heavier'' 6 ''c2''] \<and>
   dedup_loop [(''x'', mkRuleRecommendation ''x'' ''first'' 5 ''c1'')]
              [mkRuleRecommendation ''x'' ''heavier'' 6 ''c2'']
     = Inr [(''x'', mkRuleRecommendation ''x'' ''heavier'' 6 ''c2'')]"
proof -
  let ?a = "mkRuleRecommendation ''x'' ''first'' 5 ''c1''"
  let ?b = "mkRuleRecommendation ''x'' ''later'' 5 ''c2''"
  let ?c = "mkRuleRecommendation ''x'' ''heavier'' 6 ''c2''"
  have n: "name ?a = name ?b" "name ?a = name ?c" "name ?c = ''x''"
    and w: "\<not> weight ?b > weight ?a" "weight ?c > weight ?a"
    by (simp_all add: mkRuleRecommendation_def)
  have g: "dict_getitem [(''x'', ?a)] (name ?c) = Inr ?a"
    by (simp add: dict_getitem_def n(3))
  have 1: "dedup_rank [?a, ?b] = Inr [?a]"
    using dedup_replaces_only_strictly_heavier[of ?a ?b "[]" ?a "[]" "[]"] n(1) w(1) by simp
  have 2: "dedup_rank [?a, ?c] = Inr [?c]"
    using dedup_replaces_only_strictly_heavier[of ?a ?c "[]" ?a "[]" "[]"] n(2) w(2) by simp
  have "dedup_loop [(''x'', ?a)] (?c # []) =
      dedup_loop (if weight ?c > weight ?a
                  then dict_setitem [(''x'', ?a)] (name ?c) ?c else [(''x'', ?a)]) []"
    using dedup_replaces_only_strictly_heavier[of ?a ?b "[(''x'', ?a)]" ?c "[]" "[]"] g by blast
  then have 3: "dedup_loop [(''x'', ?a)] [?c] = Inr [(''x'', ?c)]"
    using w(2) n(3) by (simp add: dict_setitem_def)
  from 1 2 3 show ?thesis by (intro conjI)
qed

section \<open>The recommendations for a profile\<close>

text \<open>
  Claim C2. For the profile with \<^verbatim>\<open>project_size=large\<close>, one \<^verbatim>\<open>languages\<close> fact
  \<^verbatim>\<open>python\<close>, \<^verbatim>\<open>team_size=large\<close>, \<^verbatim>\<open>has_testing=true\<close> and \<^verbatim>\<open>has_git=true\<close>,
  \<^verbatim>\<open>recommend_rules\<close> returns exactly the ten listed ids with the listed weights, ordered
  by non-increasing weight. Before deduplication \<^verbatim>\<open>code-analysis\<close> is proposed twice,
  with weight 9 by the large-project branch and with weight 7 by the language branch
  for \<^verbatim>\<open>python\<close>; the result has it once, with weight 9 and the reason of the
  large-project branch. Among the four candidates of weight 8 the order is that of
  first emission: \<^verbatim>\<open>quick-wins\<close>, \<^verbatim>\<open>pr-review\<close>, \<^verbatim>\<open>five\<close>, \<^verbatim>\<open>commit\<close>.
\<close>

theorem recommend_rules_scenario:
  "\<exists>out. recommend_rules self scenario = Inr out \<and>
     map (\<lambda>r. (name r, weight r)) out =
       [(''implement-task'', 10), (''bug-fix'', 10), (''code-analysis'', 9),
        (''quick-wins'', 8), (''pr-review'', 8), (''five'', 8), (''commit'', 8),
        (''continuous-improvement'', 7), (''add-to-changelog'', 6),
        (''rule-effectiveness-tracker'', 5)] \<and>
     mset (map (\<lambda>r. (name r, weight r)) out) =
       mset [(''implement-task'', 10), (''bug-fix'', 10), (''code-analysis'', 9),
        (''pr-review'', 8), (''quick-wins'', 8), (''five'', 8), (''commit'', 8),
        (''continuous-improvement'', 7), (''add-to-changelog'', 6),
        (''rule-effectiveness-tracker'', 5)] \<and>
     map weight out = [10, 10, 9, 8, 8, 8, 8, 7, 6, 5] \<and>
     map reason (filter (\<lambda>r. name r = ''code-analysis'') out) = [txt_large_quality] \<and>
     language_rules (map value' (filter (\<lambda>f. key f = ''languages'') scenario)) =
       [mkRuleRecommendation ''code-analysis'' (''python'' @ txt_lang_suffix) 7 ''quality''] \<and>
     filter (\<lambda>r. name r = ''code-analysis'') (recommendations scenario) =
       [mkRuleRecommendation ''code-analysis'' txt_large_quality 9 ''quality'',
        mkRuleRecommendation ''code-analysis'' (''python'' @ txt_lang_suffix) 7 ''quality''] \<and>
     filter (\<lambda>r. name r = ''code-analysis'') out =
       [mkRuleRecommendation ''code-analysis'' txt_large_quality 9 ''quality'']"
  by (simp add: recommend_rules_def scenario_def rule_block_defs dedup_rank_defs)

text \<open>
  Claim C5. On the profile with no facts \<^verbatim>\<open>recommend_rules\<close> returns, without raising,
  the three core rules, the rules \<^verbatim>\<open>clean\<close> and \<^verbatim>\<open>commit\<close> of the small-project
  branch, and the tracker.
\<close>

theorem recommend_rules_empty_profile:
  "recommend_rules self [] =
     Inr [mkRuleRecommendation ''implement-task'' txt_core_flow 10 ''core'',
          mkRuleRecommendation ''bug-fix'' txt_core_flow 10 ''core'',
          mkRuleRecommendation ''quick-wins'' txt_quick_wins 8 ''productivity'',
          mkRuleRecommendation ''clean'' txt_small_clean 7 ''maintenance'',
          mkRuleRecommendation ''commit'' txt_small_commit 6 ''workflow'',
          mkRuleRecommendation ''rule-effectiveness-tracker'' txt_tracker 5 ''meta'']"
  by (simp add: recommend_rules_def rule_block_defs dedup_rank_defs)

lemma language_rules_all:
  "\<forall>c\<in>set (language_rules ls).
     (name c = ''modern-swift'' \<and> weight c = 9 \<and> category c = ''language_specific'') \<or>
     (name c = ''code-analysis'' \<and> weight c = 7 \<and> category c = ''quality'')"
  by (induction ls) (simp_all add: mkRuleRecommendation_def)

lemma size_rules_all:
  "\<forall>c\<in>set (size_rules sz).
     name c \<in> {''code-analysis'', ''pr-review'', ''continuous-improvement'', ''check'',
                ''clean'', ''commit''} \<and> 6 \<le> weight c"
  by (simp add: size_rules_def mkRuleRecommendation_def)

lemma team_rules_all:
  "\<forall>c\<in>set (team_rules ts). name c \<in> {''pr-review'', ''add-to-changelog''} \<and> 6 \<le> weight c"
  by (cases "ts \<in> set [''medium'', ''large'']")
     (simp_all add: team_rules_def mkRuleRecommendation_def)

lemma toolchain_rules_all:
  "\<forall>c\<in>set (toolchain_rules d). name c \<in> {''five'', ''commit''} \<and> 6 \<le> weight c"
  by (cases "d ''has_testing'' = Some ''true''"; cases "d ''has_git'' = Some ''true''")
     (simp_all add: toolchain_rules_def mkRuleRecommendation_def)

lemma core_tracker_names:
  "name ` set core_rules = {''implement-task'', ''bug-fix'', ''quick-wins''}"
  "name tracker_rule = ''rule-effectiveness-tracker''"
  "weight tracker_rule = 5"
  by (simp_all add: core_rules_def tracker_rule_def mkRuleRecommendation_def)

lemma core_rules_weight: "\<forall>c\<in>set core_rules. 8 \<le> weight c"
  by (simp add: core_rules_def mkRuleRecommendation_def)

text \<open>Every candidate is one of the three core candidates, the tracker, or a candidate
  of another id with weight at least 6.\<close>

lemma recommendations_mem:
  assumes "c \<in> set (recommendations fs)"
  shows "c \<in> set core_rules \<or> c = tracker_rule \<or>
     (name c \<notin> {''implement-task'', ''bug-fix'', ''quick-wins'', ''rule-effectiveness-tracker''}
      \<and> 6 \<le> weight c)"
proof -
  from assms consider
      "c \<in> set core_rules" | "c = tracker_rule"
    | sz where "c \<in> set (size_rules sz)"
    | ls where "c \<in> set (language_rules ls)"
    | ts where "c \<in> set (team_rules ts)"
    | d where "c \<in> set (toolchain_rules d)"
    unfolding recommendations_def Let_def set_append by auto
  then show ?thesis
  proof cases
    case 1 then show ?thesis by simp
  next
    case 2 then show ?thesis by simp
  next
    case 3
    then have "name c \<in> {''code-analysis'', ''pr-review'', ''continuous-improvement'', ''check'',
                ''clean'', ''commit''} \<and> 6 \<le> weight c"
      using size_rules_all by blast
    then show ?thesis by auto
  next
    case 4
    then have "(name c = ''modern-swift'' \<and> weight c = 9 \<and> category c = ''language_specific'') \<or>
     (name c = ''code-analysis'' \<and> weight c = 7 \<and> category c = ''quality'')"
      using language_rules_all by blast
    then show ?thesis by auto
  next
    case 5
    then have "name c \<in> {''pr-review'', ''add-to-changelog''} \<and> 6 \<le> weight c"
      using team_rules_all by blast
    then show ?thesis by auto
  next
    case 6
    then have "name c \<in> {''five'', ''commit''} \<and> 6 \<le> weight c"
      using toolchain_rules_all by blast
    then show ?thesis by auto
  qed
qed

lemma core_tracker_in_recommendations:
  "set core_rules \<subseteq> set (recommendations fs)" "tracker_rule \<in> set (recommendations fs)"
  unfolding recommendations_def Let_def set_append by auto

lemma core_tracker_distinct:
  "distinct (map name (core_rules @ [tracker_rule]))"
  by (simp add: core_rules_def tracker_rule_def mkRuleRecommendation_def)

lemma core_tracker_by_name:
  assumes "a \<in> set core_rules \<or> a = tracker_rule" "b \<in> set core_rules \<or> b = tracker_rule"
      "name a = name b"
  shows "a = b"
proof -
  have "inj_on name (set (core_rules @ [tracker_rule]))"
    using core_tracker_distinct by (simp only: distinct_map)
  moreover have "a \<in> set (core_rules @ [tracker_rule])" "b \<in> set (core_rules @ [tracker_rule])"
    using assms(1,2) by auto
  ultimately show ?thesis using assms(3) by (meson inj_onD)
qed

lemma recommend_rules_Inr:
  "\<exists>out. recommend_rules self fs = Inr out"
  by (simp add: recommend_rules_def dedup_rank_Inr)

text \<open>The core candidates and the tracker survive deduplication as they are.\<close>

lemma core_tracker_kept:
  assumes out: "recommend_rules self fs = Inr out"
    and c: "c \<in> set core_rules \<or> c = tracker_rule"
  shows "c \<in> set out"
proof -
  have dr: "dedup_rank (recommendations fs) = Inr out" using out by (simp add: recommend_rules_def)
  have "c \<in> set (recommendations fs)" using c core_tracker_in_recommendations[of fs] by auto
  then have "name c \<in> name ` set out" using dedup_rank_facts(2)[OF dr] by auto
  then obtain r where r: "r \<in> set out" "name r = name c" by auto
  have rin: "r \<in> set (recommendations fs)"
    using dedup_rank_facts(3)[OF dr r(1)] by (rule placed_mem)
  have "name c \<in> {''implement-task'', ''bug-fix'', ''quick-wins'', ''rule-effectiveness-tracker''}"
    using c core_tracker_names(1,2) by blast
  then have "r \<in> set core_rules \<or> r = tracker_rule"
    using recommendations_mem[OF rin] r(2) by metis
  then have "r = c" using c r(2) by (rule core_tracker_by_name)
  then show ?thesis using r(1) by simp
qed

text \<open>
  Claim C6. For every profile \<^verbatim>\<open>recommend_rules\<close> returns a list that contains the
  three core candidates and the tracker candidate, hence the ids \<^verbatim>\<open>implement-task\<close>,
  \<^verbatim>\<open>bug-fix\<close>, \<^verbatim>\<open>quick-wins\<close> and \<^verbatim>\<open>rule-effectiveness-tracker\<close>.
\<close>

theorem core_and_tracker_always_recommended:
  "\<exists>out. recommend_rules self fs = Inr out \<and>
     set core_rules \<union> {tracker_rule} \<subseteq> set out \<and>
     {''implement-task'', ''bug-fix'', ''quick-wins'', ''rule-effectiveness-tracker''}
       \<subseteq> name ` set out"
proof -
  obtain out where out: "recommend_rules self fs = Inr out"
    using recommend_rules_Inr by blast
  have sub: "set core_rules \<union> {tracker_rule} \<subseteq> set out"
    using core_tracker_kept[OF out] by auto
  from sub have "name ` (set core_rules \<union> {tracker_rule}) \<subseteq> name ` set out"
    by (rule image_mono)
  moreover have "{''implement-task'', ''bug-fix'', ''quick-wins'', ''rule-effectiveness-tracker''}
      \<subseteq> name ` (set core_rules \<union> {tracker_rule})"
    unfolding image_Un core_tracker_names(1) image_insert image_empty core_tracker_names(2)
    by blast
  ultimately have names: "{''implement-task'', ''bug-fix'', ''quick-wins'', ''rule-effectiveness-tracker''}
       \<subseteq> name ` set out"
    by (rule subset_trans[rotated])
  show ?thesis
    by (rule exI[of _ out]) (intro conjI out sub names)
qed

text \<open>
  Claim C10. For every profile the tracker candidate is the last element of the ranked
  list: its weight is 5, every other candidate the engine emits has weight at least 6,
  and so has every element of the list before the last.
\<close>

theorem tracker_is_last:
  "\<exists>out. recommend_rules self fs = Inr out \<and> out \<noteq> [] \<and>
     last out = tracker_rule \<and> weight (last out) = 5 \<and>
     (\<forall>r\<in>set (butlast out). 6 \<le> weight r) \<and>
     (\<forall>c\<in>set (recommendations fs). c \<noteq> tracker_rule \<longrightarrow> 6 \<le> weight c)"
proof -
  obtain out where out: "recommend_rules self fs = Inr out"
    using recommend_rules_Inr by blast
  have dr: "dedup_rank (recommendations fs) = Inr out" using out by (simp add: recommend_rules_def)
  note f = dedup_rank_facts[OF dr]
  have heavy: "6 \<le> weight c" if "c \<in> set (recommendations fs)" "c \<noteq> tracker_rule" for c
  proof -
    from recommendations_mem[OF that(1)] that(2)
    consider "c \<in> set core_rules" | "6 \<le> weight c" by blast
    then show ?thesis
    proof cases
      case 1 then have "8 \<le> weight c" using core_rules_weight by blast
      then show ?thesis by simp
    qed
  qed
  have mem: "r \<in> set (recommendations fs)" if "r \<in> set out" for r
    using f(3)[OF that] by (rule placed_mem)
  have "tracker_rule \<in> set out" using core_tracker_kept[OF out] by simp
  then obtain ys zs where split: "out = ys @ tracker_rule # zs" by (meson split_list)
  have "zs = []"
  proof (rule ccontr)
    assume "zs \<noteq> []"
    then obtain z where z: "z \<in> set zs" by (cases zs) auto
    have "weight z \<le> weight tracker_rule"
      using f(4) z unfolding split by (auto simp: sorted_wrt_append)
    then have le: "weight z \<le> 5" by (simp only: core_tracker_names(3))
    have "z \<in> set out" using z split by simp
    then have zin: "z \<in> set (recommendations fs)" by (rule mem)
    have "z = tracker_rule"
    proof (rule ccontr)
      assume "z \<noteq> tracker_rule"
      then have "6 \<le> weight z" using heavy[OF zin] by simp
      with le show False by simp
    qed
    moreover have "name tracker_rule \<notin> name ` set zs"
      using f(1) unfolding split by simp
    ultimately show False using z by blast
  qed
  then have o: "out = ys @ [tracker_rule]" using split by simp
  have d: "name tracker_rule \<notin> name ` set ys" using f(1) unfolding o by simp
  have bl: "\<forall>r\<in>set (butlast out). 6 \<le> weight r"
  proof
    fix r assume "r \<in> set (butlast out)"
    then have r: "r \<in> set ys" by (simp add: o)
    then have "r \<noteq> tracker_rule" using d by blast
    moreover have "r \<in> set out" using r o by simp
    ultimately show "6 \<le> weight r" using heavy[OF mem] by blast
  qed
  have la: "last out = tracker_rule" and ne: "out \<noteq> []" by (simp_all add: o)
  have wl: "weight (last out) = 5" by (simp add: o core_tracker_names(3))
  have al: "\<forall>c\<in>set (recommendations fs). c \<noteq> tracker_rule \<longrightarrow> 6 \<le> weight c"
    using heavy by blast
  show ?thesis
    by (rule exI[of _ out]) (intro conjI out ne la wl bl al)
qed

theorem tracker_is_last_witness:
  "\<exists>out. recommend_rules default_engine scenario = Inr out \<and>
     last out = tracker_rule \<and> map weight (butlast out) = [10, 10, 9, 8, 8, 8, 8, 7, 6]"
proof -
  from tracker_is_last[of default_engine scenario]
  obtain out where out: "recommend_rules default_engine scenario = Inr out"
    and l: "last out = tracker_rule" by blast
  have "\<exists>out'. recommend_rules default_engine scenario = Inr out' \<and>
      map weight (butlast out') = [10, 10, 9, 8, 8, 8, 8, 7, 6]"
    by (simp add: recommend_rules_def scenario_def rule_block_defs dedup_rank_defs)
  then obtain out' where o': "recommend_rules default_engine scenario = Inr out'"
      "map weight (butlast out') = [10, 10, 9, 8, 8, 8, 8, 7, 6]" by (elim exE conjE)
  from out o'(1) have "out' = out" by simp
  with o'(2) have w: "map weight (butlast out) = [10, 10, 9, 8, 8, 8, 8, 7, 6]" by (simp only:)
  show ?thesis
    by (rule exI[of _ out]) (intro conjI out l w)
qed

section \<open>The rule configuration\<close>

text \<open>
  Claim C4, as stated, fails: \<^verbatim>\<open>recommend_rules\<close> never reads \<^verbatim>\<open>self.config\<close>. With a
  configuration document that gives \<^verbatim>\<open>implement-task\<close> weight 1 and category
  \<^verbatim>\<open>misc\<close>, the engine built from it still emits \<^verbatim>\<open>implement-task\<close> with weight 10
  and category \<^verbatim>\<open>core\<close>.
\<close>

theorem config_weight_not_consumed_counterexample:
  "RuleEngine_init usual_env None (Present (Inr override_config)) = Inr override_engine \<and>
   config override_engine = override_config \<and>
   rule_weight override_config ''implement-task'' = Some 1 \<and>
   rule_category override_config ''implement-task'' = Some ''misc'' \<and>
   recommend_rules override_engine [] =
     Inr [mkRuleRecommendation ''implement-task'' txt_core_flow 10 ''core'',
          mkRuleRecommendation ''bug-fix'' txt_core_flow 10 ''core'',
          mkRuleRecommendation ''quick-wins'' txt_quick_wins 8 ''productivity'',
          mkRuleRecommendation ''clean'' txt_small_clean 7 ''maintenance'',
          mkRuleRecommendation ''commit'' txt_small_commit 6 ''workflow'',
          mkRuleRecommendation ''rule-effectiveness-tracker'' txt_tracker 5 ''meta'']"
  by (simp add: RuleEngine_init_def PathManager_init_def usual_env_def usual_paths_def
        override_engine_def default_engine_def override_config_def rule_weight_def
        rule_category_def rule_entry_def recommend_rules_def rule_block_defs dedup_rank_defs)

lemma default_rule_weight:
  "rule_weight get_default_config n = Some w \<Longrightarrow>
     (n = ''implement-task'' \<and> w = 10) \<or> (n = ''bug-fix'' \<and> w = 10) \<or>
     (n = ''quick-wins'' \<and> w = 8)"
  by (simp add: rule_weight_def rule_entry_def get_default_config_def split: if_splits)

lemma default_rule_category:
  "rule_category get_default_config n = Some c \<Longrightarrow>
     (n = ''implement-task'' \<and> c = ''core'') \<or> (n = ''bug-fix'' \<and> c = ''core'') \<or>
     (n = ''quick-wins'' \<and> c = ''productivity'')"
  by (simp add: rule_category_def rule_entry_def get_default_config_def split: if_splits)

lemma core_rules_table:
  "\<forall>r\<in>set core_rules.
     (name r = ''implement-task'' \<and> weight r = 10 \<and> category r = ''core'') \<or>
     (name r = ''bug-fix'' \<and> weight r = 10 \<and> category r = ''core'') \<or>
     (name r = ''quick-wins'' \<and> weight r = 8 \<and> category r = ''productivity'')"
  by (simp add: core_rules_def mkRuleRecommendation_def)

lemma string_neq:
  "''implement-task'' \<noteq> ''bug-fix''" "''implement-task'' \<noteq> ''quick-wins''"
  "''bug-fix'' \<noteq> ''quick-wins''"
  "''implement-task'' \<noteq> ''rule-effectiveness-tracker''"
  "''bug-fix'' \<noteq> ''rule-effectiveness-tracker''"
  "''quick-wins'' \<noteq> ''rule-effectiveness-tracker''"
  by simp_all

text \<open>
  Claim C4, amended. The result of \<^verbatim>\<open>recommend_rules\<close> is the same for every engine,
  whatever configuration it loaded: the weights and categories are fixed in the code.
  They agree with the built-in default table: a candidate of the result whose id has
  a weight and a category in the default table carries that weight and category.
\<close>

theorem recommend_rules_ignores_config:
  "recommend_rules self fs = recommend_rules self' fs \<and>
   (\<forall>out r w c. recommend_rules self fs = Inr out \<and> r \<in> set out \<and>
        rule_weight get_default_config (name r) = Some w \<and>
        rule_category get_default_config (name r) = Some c
      \<longrightarrow> weight r = w \<and> category r = c)"
proof (rule conjI)
  show "recommend_rules self fs = recommend_rules self' fs"
    by (simp add: recommend_rules_def)
next
  show "\<forall>out r w c. recommend_rules self fs = Inr out \<and> r \<in> set out \<and>
        rule_weight get_default_config (name r) = Some w \<and>
        rule_category get_default_config (name r) = Some c
      \<longrightarrow> weight r = w \<and> category r = c"
  proof (intro allI impI)
  fix out r w c
  assume a: "recommend_rules self fs = Inr out \<and> r \<in> set out \<and>
        rule_weight get_default_config (name r) = Some w \<and>
        rule_category get_default_config (name r) = Some c"
  then have dr: "dedup_rank (recommendations fs) = Inr out" by (simp add: recommend_rules_def)
  have rin: "r \<in> set (recommendations fs)"
    using dedup_rank_facts(3)[OF dr] a by (auto intro: placed_mem)
  from a have W: "(name r = ''implement-task'' \<and> w = 10) \<or> (name r = ''bug-fix'' \<and> w = 10) \<or>
     (name r = ''quick-wins'' \<and> w = 8)"
    by (intro default_rule_weight) simp
  from a have C: "(name r = ''implement-task'' \<and> c = ''core'') \<or> (name r = ''bug-fix'' \<and> c = ''core'') \<or>
     (name r = ''quick-wins'' \<and> c = ''productivity'')"
    by (intro default_rule_category) simp
  have "r \<in> set core_rules"
    using recommendations_mem[OF rin] W by (auto simp: core_tracker_names(2))
  then have R: "(name r = ''implement-task'' \<and> weight r = 10 \<and> category r = ''core'') \<or>
     (name r = ''bug-fix'' \<and> weight r = 10 \<and> category r = ''core'') \<or>
     (name r = ''quick-wins'' \<and> weight r = 8 \<and> category r = ''productivity'')"
    using core_rules_table by blast
  show "weight r = w \<and> category r = c"
    using W C R string_neq(1-3) by (elim disjE conjE) simp_all
  qed
qed

theorem recommend_rules_ignores_config_witness:
  "recommend_rules override_engine scenario = recommend_rules default_engine scenario \<and>
   rule_weight get_default_config ''quick-wins'' = Some 8 \<and>
   rule_category get_default_config ''quick-wins'' = Some ''productivity'' \<and>
   (\<exists>out. recommend_rules override_engine [] = Inr out \<and>
      map (\<lambda>r. (weight r, category r)) (filter (\<lambda>r. name r = ''quick-wins'') out) =
        [(8, ''productivity'')])"
proof -
  let ?e = override_engine
  let ?d = default_engine
  note T = recommend_rules_ignores_config[of ?e scenario ?d]
  have 1: "recommend_rules ?e scenario = recommend_rules ?d scenario"
    using T by (rule conjunct1)
  have 2: "rule_weight get_default_config ''quick-wins'' = Some 8"
    and 3: "rule_category get_default_config ''quick-wins'' = Some ''productivity''"
    by (simp_all add: rule_weight_def rule_category_def rule_entry_def get_default_config_def)
  have 4: "\<exists>out. recommend_rules ?e [] = Inr out \<and>
      map (\<lambda>r. (weight r, category r)) (filter (\<lambda>r. name r = ''quick-wins'') out) =
        [(8, ''productivity'')]"
    by (simp add: recommend_rules_def rule_block_defs dedup_rank_defs)
  show ?thesis by (intro conjI 1 2 3 4)
qed

lemma load_config_fallback:
  assumes "file = Missing \<or> (\<exists>e. file = Present (Inl e) \<and> is_Exception e)"
  shows "load_config file = Inr get_default_config"
  using assms by auto

lemma default_config_core_entries:
  "rule_entry get_default_config ''implement-task'' \<noteq> None"
  "rule_entry get_default_config ''bug-fix'' \<noteq> None"
  "rule_entry get_default_config ''quick-wins'' \<noteq> None"
  by (simp_all add: rule_entry_def get_default_config_def)

text \<open>
  Where the fallback works: the path queries of \<^verbatim>\<open>PathManager()\<close> succeed, and
  \<^verbatim>\<open>exists()\<close> reports the file missing, or reports it present and reading or parsing
  it raises an exception of class \<^verbatim>\<open>Exception\<close>. The constructor then returns an engine
  that holds the default table.
\<close>

lemma RuleEngine_init_fallback:
  assumes "PathManager_init env = Inr pm"
    and "file = Missing \<or> (\<exists>e. file = Present (Inl e) \<and> is_Exception e)"
  shows "\<exists>engine. RuleEngine_init env arg file = Inr engine \<and>
           config engine = get_default_config"
  using assms(1) load_config_fallback[OF assms(2)]
  by (simp add: RuleEngine_init_def Let_def)

text \<open>
  Claim C7 fails on the code at a configuration file that exists but cannot be reached:
  \<^verbatim>\<open>self.config_path.exists()\<close> (line 373) is evaluated before the \<^verbatim>\<open>try\<close> of line
  376, so the \<^verbatim>\<open>PermissionError\<close> it raises for a directory that may not be searched
  (or the \<^verbatim>\<open>OSError\<close> for an over-long name) is not caught by \<^verbatim>\<open>except Exception\<close>:
  \<^verbatim>\<open>_load_config\<close> does not return the default table, and the constructor propagates
  the exception to its caller. The same exceptions raised one line later by \<^verbatim>\<open>open\<close>
  are caught and do lead to the default table.
\<close>

theorem RuleEngine_init_unreachable_config_raises:
  "load_config (Unreachable PermissionError) = Inl PermissionError \<and>
   RuleEngine_init usual_env None (Unreachable PermissionError) = Inl PermissionError \<and>
   RuleEngine_init usual_env None (Unreachable OSError) = Inl OSError \<and>
   RuleEngine_init usual_env None (Present (Inl PermissionError)) = Inr default_engine \<and>
   RuleEngine_init usual_env None Missing = Inr default_engine"
  by (simp add: RuleEngine_init_def PathManager_init_def usual_env_def usual_paths_def
        default_engine_def)

section \<open>Order of the facts\<close>

text \<open>
  Claim C8, as stated, fails. With two \<^verbatim>\<open>project_size\<close> facts the later one decides the
  size branch, so swapping them changes the result; and with two languages that both
  propose \<^verbatim>\<open>code-analysis\<close> the reason text names the one listed first.
\<close>

theorem recommend_rules_order_dependent_counterexample:
  "mset [mkProjectFeature ''project_size'' ''large'' [], mkProjectFeature ''project_size'' ''small'' []]
     = mset [mkProjectFeature ''project_size'' ''small'' [], mkProjectFeature ''project_size'' ''large'' []] \<and>
   recommend_rules default_engine
       [mkProjectFeature ''project_size'' ''large'' [], mkProjectFeature ''project_size'' ''small'' []]
     \<noteq> recommend_rules default_engine
       [mkProjectFeature ''project_size'' ''small'' [], mkProjectFeature ''project_size'' ''large'' []] \<and>
   mset [mkProjectFeature ''languages'' ''python'' [], mkProjectFeature ''languages'' ''java'' []]
     = mset [mkProjectFeature ''languages'' ''java'' [], mkProjectFeature ''languages'' ''python'' []] \<and>
   recommend_rules default_engine
       [mkProjectFeature ''languages'' ''python'' [], mkProjectFeature ''languages'' ''java'' []]
     \<noteq> recommend_rules default_engine
       [mkProjectFeature ''languages'' ''java'' [], mkProjectFeature ''languages'' ''python'' []]"
  by (simp add: recommend_rules_def rule_block_defs dedup_rank_defs)

lemma language_rules_Cons:
  "language_rules (lang # languages) =
     (if lang = ''swift'' then
        mkRuleRecommendation ''modern-swift'' txt_swift 9 ''language_specific''
          # language_rules languages
      else if lang \<in> set code_languages then
        mkRuleRecommendation ''code-analysis'' (lang @ txt_lang_suffix) 7 ''quality''
          # language_rules languages
      else language_rules languages)"
  unfolding code_languages_def by (rule language_rules.simps(2))

lemma swift_not_code: "''swift'' \<notin> set code_languages"
  by (simp add: code_languages_def)

lemma language_rules_members:
  "\<forall>c\<in>set (language_rules ls).
     c = mkRuleRecommendation ''modern-swift'' txt_swift 9 ''language_specific'' \<or>
     (name c = ''code-analysis'' \<and> weight c = 7 \<and> category c = ''quality'' \<and>
      RuleRecommendation.confidence c = 1)"
proof (induction ls)
  case Nil
  show ?case by simp
next
  case (Cons l ls)
  show ?case
    unfolding language_rules_Cons using Cons.IH
    by (simp add: mkRuleRecommendation_def)
qed

lemma language_rules_swift:
  "''modern-swift'' \<in> name ` set (language_rules ls) \<longleftrightarrow> ''swift'' \<in> set ls"
proof (induction ls)
  case Nil
  show ?case by simp
next
  case (Cons l ls)
  show ?case
    unfolding language_rules_Cons using Cons.IH
    by (auto simp: mkRuleRecommendation_def)
qed

lemma language_rules_code:
  "''code-analysis'' \<in> name ` set (language_rules ls) \<longleftrightarrow>
     (\<exists>l\<in>set ls. l \<in> set code_languages)"
proof (induction ls)
  case Nil
  show ?case by simp
next
  case (Cons l ls)
  show ?case
    unfolding language_rules_Cons using Cons.IH swift_not_code
    by (auto simp: mkRuleRecommendation_def)
qed

lemma language_rules_names_sub:
  "name ` set (language_rules ls) \<subseteq> {''modern-swift'', ''code-analysis''}"
proof -
  have "name c \<in> {''modern-swift'', ''code-analysis''}" if "c \<in> set (language_rules ls)" for c
    using language_rules_members that by (fastforce simp: mkRuleRecommendation_def)
  then show ?thesis by blast
qed

lemma language_rules_names_set:
  assumes "set ls' = set ls"
  shows "name ` set (language_rules ls') = name ` set (language_rules ls)"
proof -
  have "n \<in> name ` set (language_rules ls') \<longleftrightarrow> n \<in> name ` set (language_rules ls)" for n
  proof (cases "n = ''modern-swift''")
    case True
    then show ?thesis using assms by (simp only: language_rules_swift)
  next
    case False
    show ?thesis
    proof (cases "n = ''code-analysis''")
      case True
      then show ?thesis using assms by (simp only: language_rules_code)
    next
      case False
      then show ?thesis
        using \<open>n \<noteq> ''modern-swift''\<close> language_rules_names_sub[of ls] language_rules_names_sub[of ls']
        by blast
    qed
  qed
  then show ?thesis by blast
qed

lemma first_pos_three:
  "first_pos n (A @ L @ B) =
     (if n \<in> name ` set A then first_pos n A
      else if n \<in> name ` set L then length A + first_pos n L
      else length A + length L + first_pos n B)"
  by (simp add: first_pos_append_in first_pos_append_notin)

text \<open>Two ranked lists over the same ids whose orders agree on every pair of ids list the
  ids in the same sequence.\<close>

lemma ranked_names_unique:
  assumes "sorted_wrt S out" "sorted_wrt S' out'"
    and "distinct (map name out)" "distinct (map name out')"
    and "name ` set out = name ` set out'"
    and agree: "\<And>a b a' b'. a \<in> set out \<Longrightarrow> b \<in> set out \<Longrightarrow> a' \<in> set out' \<Longrightarrow> b' \<in> set out'
        \<Longrightarrow> name a = name a' \<Longrightarrow> name b = name b' \<Longrightarrow> name a \<noteq> name b \<Longrightarrow> S a b \<Longrightarrow> \<not> S' b' a'"
  shows "map name out = map name out'"
  using assms
proof (induction out arbitrary: out')
  case Nil
  then show ?case by simp
next
  case (Cons x xs)
  from Cons.prems(5) obtain y ys where o': "out' = y # ys" by (cases out') auto
  have xy: "name x = name y"
  proof (rule ccontr)
    assume ne: "name x \<noteq> name y"
    have "name x \<in> name ` set (y # ys)" using Cons.prems(5) o' by auto
    then obtain x' where x': "x' \<in> set ys" "name x' = name x" using ne by auto
    have "name y \<in> name ` set (x # xs)" using Cons.prems(5) o' by auto
    then obtain y0 where y0: "y0 \<in> set xs" "name y0 = name y" using ne by auto
    have 1: "S x y0" using Cons.prems(1) y0(1) by simp
    have 2: "S' y x'" using Cons.prems(2) x'(1) unfolding o' by simp
    have "\<not> S' y x'"
    proof (rule Cons.prems(6)[of x y0 x' y])
      show "x \<in> set (x # xs)" by simp
      show "y0 \<in> set (x # xs)" using y0(1) by simp
      show "x' \<in> set out'" using x'(1) unfolding o' by simp
      show "y \<in> set out'" unfolding o' by simp
      show "name x = name x'" using x'(2) by (rule sym)
      show "name y0 = name y" by (rule y0(2))
      show "name x \<noteq> name y0" using ne unfolding y0(2) .
      show "S x y0" by (rule 1)
    qed
    with 2 show False by (rule rev_notE)
  qed
  have nx: "name x \<notin> name ` set xs" "name y \<notin> name ` set ys"
    using Cons.prems(3,4) unfolding o' by auto
  have sets: "name ` set xs = name ` set ys"
  proof -
    have "insert (name x) (name ` set xs) = insert (name x) (name ` set ys)"
      using Cons.prems(5) xy unfolding o' by simp
    then show ?thesis using nx xy by (metis insert_ident)
  qed
  have "map name xs = map name ys"
  proof (rule Cons.IH)
    show "sorted_wrt S xs" using Cons.prems(1) by simp
    show "sorted_wrt S' ys" using Cons.prems(2) unfolding o' by simp
    show "distinct (map name xs)" using Cons.prems(3) by simp
    show "distinct (map name ys)" using Cons.prems(4) unfolding o' by simp
    show "name ` set xs = name ` set ys" by (rule sets)
    show "\<not> S' b' a'" if "a \<in> set xs" "b \<in> set xs" "a' \<in> set ys" "b' \<in> set ys"
      "name a = name a'" "name b = name b'" "name a \<noteq> name b" "S a b" for a b a' b'
    proof (rule Cons.prems(6)[of a b a' b'])
      show "a \<in> set (x # xs)" "b \<in> set (x # xs)" using that(1,2) by simp_all
      show "a' \<in> set out'" "b' \<in> set out'" using that(3,4) unfolding o' by simp_all
      show "name a = name a'" "name b = name b'" "name a \<noteq> name b" "S a b"
        by (rule that(5) that(6) that(7) that(8))+
    qed
  qed
  then show ?case using xy unfolding o' by simp
qed

text \<open>Replacing the middle block of a candidate list keeps the relative order of first
  emission of two ids, unless both are first emitted in that block.\<close>

lemma first_pos_middle:
  assumes names: "name ` set L = name ` set L'"
    and a: "a \<in> name ` set (A @ L @ B)" and b: "b \<in> name ` set (A @ L @ B)"
    and notboth: "\<not> (a \<in> name ` set L - name ` set A \<and> b \<in> name ` set L - name ` set A)"
    and lt: "first_pos a (A @ L @ B) < first_pos b (A @ L @ B)"
  shows "first_pos a (A @ L' @ B) < first_pos b (A @ L' @ B)"
proof -
  have lA: "first_pos n A < length A" if "n \<in> name ` set A" for n
    using that by (rule first_pos_less)
  have lL: "first_pos n L < length L" if "n \<in> name ` set L" for n
    using that by (rule first_pos_less)
  have lL': "first_pos n L' < length L'" if "n \<in> name ` set L'" for n
    using that by (rule first_pos_less)
  consider (AA) "a \<in> name ` set A" "b \<in> name ` set A"
    | (AL) "a \<in> name ` set A" "b \<notin> name ` set A"
    | (LA) "a \<notin> name ` set A" "b \<in> name ` set A"
    | (LB) "a \<notin> name ` set A" "a \<in> name ` set L" "b \<notin> name ` set A" "b \<notin> name ` set L"
    | (BL) "a \<notin> name ` set A" "a \<notin> name ` set L" "b \<notin> name ` set A" "b \<in> name ` set L"
    | (BB) "a \<notin> name ` set A" "a \<notin> name ` set L" "b \<notin> name ` set A" "b \<notin> name ` set L"
    using notboth by blast
  then show ?thesis
  proof cases
    case AA then show ?thesis using lt by (simp add: first_pos_three)
  next
    case AL then show ?thesis using lA[of a] by (simp add: first_pos_three)
  next
    case LA then show ?thesis using lt lA[of b] by (simp add: first_pos_three split: if_splits)
  next
    case LB then show ?thesis using lL'[of a] names by (simp add: first_pos_three)
  next
    case BL then show ?thesis using lt lL[of b] by (simp add: first_pos_three)
  next
    case BB then show ?thesis using lt names by (simp add: first_pos_three)
  qed
qed

text \<open>The retained candidate of an id is the first one of that id with the final weight.\<close>

lemma placed_hd_filter:
  assumes "placed r cs"
  shows "filter (\<lambda>c. name c = name r \<and> weight c = weight r) cs \<noteq> [] \<and>
         r = hd (filter (\<lambda>c. name c = name r \<and> weight c = weight r) cs)"
proof -
  from assms obtain pre post where cs: "cs = pre @ r # post"
    and pre: "\<forall>c\<in>set pre. name c = name r \<longrightarrow> weight c < weight r"
    unfolding placed_def by blast
  have "filter (\<lambda>c. name c = name r \<and> weight c = weight r) pre = []"
    using pre by (auto simp: filter_empty_conv)
  then show ?thesis unfolding cs by simp
qed

text \<open>Replacing the middle block \<open>L\<close> of a candidate list by a block \<open>L'\<close> that proposes the
  same ids, with one weight per id and different weights for different ids, none of them
  proposed after the block: the ranked ids and weights stay the same.\<close>

lemma dedup_rank_middle_block:
  assumes out: "dedup_rank (A @ L @ B) = Inr out" and out': "dedup_rank (A @ L' @ B) = Inr out'"
    and h1: "name ` set L = name ` set L'"
    and h2: "name ` set L \<inter> name ` set B = {}"
    and h3: "\<forall>x\<in>set L \<union> set L'. \<forall>y\<in>set L \<union> set L'. name x \<noteq> name y \<longrightarrow> weight x \<noteq> weight y"
    and h4: "\<forall>x\<in>set L \<union> set L'. \<forall>y\<in>set L \<union> set L'. name x = name y \<longrightarrow> weight x = weight y"
  shows "map name out = map name out'"
    and "\<And>r r'. r \<in> set out \<Longrightarrow> r' \<in> set out' \<Longrightarrow> name r = name r' \<Longrightarrow> weight r = weight r'"
proof -
  let ?cs = "A @ L @ B" and ?cs' = "A @ L' @ B"
  note f = dedup_rank_facts[OF out] and f' = dedup_rank_facts[OF out']
  have to': "\<exists>c'\<in>set ?cs'. name c' = name c \<and> weight c' = weight c" if "c \<in> set ?cs" for c
  proof (cases "c \<in> set L")
    case True
    then have "name c \<in> name ` set L'" using h1 by auto
    then obtain x where x: "x \<in> set L'" "name x = name c" by auto
    then have "weight x = weight c" using h4 True by auto
    with x show ?thesis by auto
  next
    case False
    then show ?thesis using that by auto
  qed
  have to: "\<exists>c\<in>set ?cs. name c = name c' \<and> weight c = weight c'" if "c' \<in> set ?cs'" for c'
  proof (cases "c' \<in> set L'")
    case True
    then have "name c' \<in> name ` set L" using h1 by auto
    then obtain x where x: "x \<in> set L" "name x = name c'" by auto
    then have "weight x = weight c'" using h4 True by auto
    with x show ?thesis by auto
  next
    case False
    then show ?thesis using that by auto
  qed
  show w: "weight r = weight r'" if "r \<in> set out" "r' \<in> set out'" "name r = name r'" for r r'
  proof -
    have p: "placed r ?cs" "placed r' ?cs'" using f(3) f'(3) that by auto
    obtain c where c: "c \<in> set ?cs" "name c = name r'" "weight c = weight r'"
      using to[OF placed_mem[OF p(2)]] by auto
    have 1: "weight r' \<le> weight r"
      using placed_max[OF p(1) c(1)] c(2,3) that(3) by simp
    obtain c' where c': "c' \<in> set ?cs'" "name c' = name r" "weight c' = weight r"
      using to'[OF placed_mem[OF p(1)]] by auto
    have 2: "weight r \<le> weight r'"
      using placed_max[OF p(2) c'(1)] c'(2,3) that(3) by simp
    from 1 2 show ?thesis by simp
  qed
  have names: "name ` set out = name ` set out'"
    unfolding f(2) f'(2) using h1 by (simp add: image_Un)
  show "map name out = map name out'"
  proof (rule ranked_names_unique[OF f(4) f'(4) f(1) f'(1) names])
    fix a b a' b'
    assume a: "a \<in> set out" and b: "b \<in> set out" and a': "a' \<in> set out'" and b': "b' \<in> set out'"
      and na: "name a = name a'" and nb: "name b = name b'" and ne: "name a \<noteq> name b"
      and S: "weight b \<le> weight a \<and>
        (weight a = weight b \<longrightarrow> first_pos (name a) ?cs < first_pos (name b) ?cs)"
    have wa: "weight a = weight a'" using w[OF a a' na] .
    have wb: "weight b = weight b'" using w[OF b b' nb] .
    show "\<not> (weight a' \<le> weight b' \<and>
        (weight b' = weight a' \<longrightarrow> first_pos (name b') ?cs' < first_pos (name a') ?cs'))"
    proof
      assume S': "weight a' \<le> weight b' \<and>
        (weight b' = weight a' \<longrightarrow> first_pos (name b') ?cs' < first_pos (name a') ?cs')"
      have eq: "weight a = weight b" using S S' wa wb by simp
      then have lt: "first_pos (name a) ?cs < first_pos (name b) ?cs" using S by simp
      have lt': "first_pos (name b) ?cs' < first_pos (name a) ?cs'"
        using S' eq wa wb na nb by simp
      have ain: "a \<in> set ?cs" by (rule placed_mem[OF f(3)[OF a]])
      have bin: "b \<in> set ?cs" by (rule placed_mem[OF f(3)[OF b]])
      have notboth: "\<not> (name a \<in> name ` set L - name ` set A \<and>
          name b \<in> name ` set L - name ` set A)"
      proof
        assume both: "name a \<in> name ` set L - name ` set A \<and>
          name b \<in> name ` set L - name ` set A"
        have "a \<in> set L" using ain both h2 by auto
        moreover have "b \<in> set L" using bin both h2 by auto
        ultimately have "weight a \<noteq> weight b" using h3 ne by auto
        with eq show False by simp
      qed
      have "first_pos (name a) ?cs' < first_pos (name b) ?cs'"
        using h1 _ _ notboth lt
      proof (rule first_pos_middle)
        show "name a \<in> name ` set ?cs" using ain by (rule imageI)
        show "name b \<in> name ` set ?cs" using bin by (rule imageI)
      qed
      with lt' show False by simp
    qed
  qed
qed

lemma feature_dict_of_snoc:
  "feature_dict_of (fs @ [f]) = (feature_dict_of fs)(key f \<mapsto> value' f)"
  by (simp add: feature_dict_of_def)

text \<open>The dictionary holds, for each key, the value of the last fact with that key.\<close>

lemma feature_dict_of_last:
  "feature_dict_of fs k =
     (if filter (\<lambda>f. key f = k) fs = [] then None
      else Some (value' (last (filter (\<lambda>f. key f = k) fs))))"
proof (induction fs rule: rev_induct)
  case Nil
  show ?case by (simp add: feature_dict_of_def)
next
  case (snoc g fs)
  show ?case
  proof (cases "key g = k")
    case True
    then show ?thesis by (simp add: feature_dict_of_snoc)
  next
    case False
    then show ?thesis using snoc.IH by (simp add: feature_dict_of_snoc)
  qed
qed

lemma toolchain_rules_cong:
  "d ''has_testing'' = d' ''has_testing'' \<Longrightarrow> d ''has_git'' = d' ''has_git''
     \<Longrightarrow> toolchain_rules d = toolchain_rules d'"
  by (simp add: toolchain_rules_def)

lemma recommendations_blocks:
  "recommendations fs =
     (core_rules @ size_rules (dict_get (feature_dict_of fs) ''project_size'' ''small'')) @
     language_rules (map value' (filter (\<lambda>f. key f = ''languages'') fs)) @
     (team_rules (dict_get (feature_dict_of fs) ''team_size'' ''solo'') @
      toolchain_rules (feature_dict_of fs) @ [tracker_rule])"
  by (simp add: recommendations_def Let_def)

lemma size_rules_code_analysis:
  "\<forall>c\<in>set (size_rules sz). name c = ''code-analysis'' \<longrightarrow>
     category c = ''quality'' \<and> RuleRecommendation.confidence c = 1"
  by (simp add: size_rules_def mkRuleRecommendation_def)

lemma core_rules_names_mem:
  "c \<in> set core_rules \<Longrightarrow> name c \<in> {''implement-task'', ''bug-fix'', ''quick-wins''}"
proof -
  assume "c \<in> set core_rules"
  then have "name c \<in> name ` set core_rules" by (rule imageI)
  then show ?thesis by (simp only: core_tracker_names(1))
qed

lemma head_block_names:
  "''modern-swift'' \<notin> name ` set (core_rules @ size_rules sz)"
proof
  assume "''modern-swift'' \<in> name ` set (core_rules @ size_rules sz)"
  then obtain c where n: "''modern-swift'' = name c"
    and c0: "c \<in> set (core_rules @ size_rules sz)" by (rule imageE)
  from c0 have c: "c \<in> set core_rules \<or> c \<in> set (size_rules sz)" by simp
  from c show False
  proof
    assume "c \<in> set core_rules"
    then have "name c \<in> {''implement-task'', ''bug-fix'', ''quick-wins''}"
      by (rule core_rules_names_mem)
    then show False unfolding n[symmetric] by simp
  next
    assume "c \<in> set (size_rules sz)"
    then have "name c \<in> {''code-analysis'', ''pr-review'', ''continuous-improvement'', ''check'',
                ''clean'', ''commit''}"
      by (rule size_rules_all[THEN bspec, THEN conjunct1])
    then show False unfolding n[symmetric] by simp
  qed
qed

lemma head_block_code_analysis:
  "\<forall>c\<in>set (core_rules @ size_rules sz). name c = ''code-analysis'' \<longrightarrow>
     category c = ''quality'' \<and> RuleRecommendation.confidence c = 1"
proof (intro ballI impI)
  fix c assume c: "c \<in> set (core_rules @ size_rules sz)" and n: "name c = ''code-analysis''"
  have "c \<notin> set core_rules"
  proof
    assume "c \<in> set core_rules"
    then have "name c \<in> {''implement-task'', ''bug-fix'', ''quick-wins''}"
      by (rule core_rules_names_mem)
    then show False unfolding n by simp
  qed
  then have "c \<in> set (size_rules sz)" using c by simp
  then have "name c = ''code-analysis'' \<longrightarrow>
     category c = ''quality'' \<and> RuleRecommendation.confidence c = 1"
    by (rule size_rules_code_analysis[THEN bspec])
  then show "category c = ''quality'' \<and> RuleRecommendation.confidence c = 1"
    using n by (rule mp)
qed

lemma tail_block_names:
  "name ` set (team_rules ts @ toolchain_rules d @ [tracker_rule]) \<inter>
     {''modern-swift'', ''code-analysis''} = {}"
proof -
  have "name c \<notin> {''modern-swift'', ''code-analysis''}"
    if "c \<in> set (team_rules ts @ toolchain_rules d @ [tracker_rule])" for c
  proof -
    from that consider "c \<in> set (team_rules ts)" | "c \<in> set (toolchain_rules d)"
      | "c = tracker_rule" by auto
    then show ?thesis
    proof cases
      case 1
      then have "name c \<in> {''pr-review'', ''add-to-changelog''}"
        by (rule team_rules_all[THEN bspec, THEN conjunct1])
      then show ?thesis by auto
    next
      case 2
      then have "name c \<in> {''five'', ''commit''}"
        by (rule toolchain_rules_all[THEN bspec, THEN conjunct1])
      then show ?thesis by auto
    next
      case 3
      then show ?thesis by (simp add: core_tracker_names(2))
    qed
  qed
  then show ?thesis by blast
qed

lemma language_rules_weights:
  assumes "x \<in> set (language_rules ls)"
  shows "(name x = ''modern-swift'' \<and> weight x = 9) \<or> (name x = ''code-analysis'' \<and> weight x = 7)"
proof -
  from language_rules_members[THEN bspec, OF assms]
  show ?thesis
  proof
    assume "x = mkRuleRecommendation ''modern-swift'' txt_swift 9 ''language_specific''"
    then show ?thesis by (simp add: mkRuleRecommendation_def)
  next
    assume "name x = ''code-analysis'' \<and> weight x = 7 \<and> category x = ''quality'' \<and>
      RuleRecommendation.confidence x = 1"
    then show ?thesis by simp
  qed
qed

lemma language_rules_distinct_weights:
  assumes "x \<in> set (language_rules ls) \<union> set (language_rules ls')"
    and "y \<in> set (language_rules ls) \<union> set (language_rules ls')"
  shows "(name x = name y) = (weight x = weight y)"
proof -
  have x: "(name x = ''modern-swift'' \<and> weight x = 9) \<or> (name x = ''code-analysis'' \<and> weight x = 7)"
    using assms(1) language_rules_weights by auto
  have y: "(name y = ''modern-swift'' \<and> weight y = 9) \<or> (name y = ''code-analysis'' \<and> weight y = 7)"
    using assms(2) language_rules_weights by auto
  from x y show ?thesis by (elim disjE conjE) simp_all
qed

text \<open>Two candidate lists that differ only in the language block, for two lists of
  languages with the same set of values: the ranked lists agree position by position in
  everything but the reason text, and in the reason text too except for
  \<^verbatim>\<open>code-analysis\<close>.\<close>

lemma dedup_rank_language_block:
  assumes out: "dedup_rank (A @ language_rules ls @ B) = Inr out"
    and out': "dedup_rank (A @ language_rules ls' @ B) = Inr out'"
    and ls: "set ls' = set ls"
    and A: "''modern-swift'' \<notin> name ` set A"
    and B: "name ` set B \<inter> {''modern-swift'', ''code-analysis''} = {}"
    and ca: "\<forall>c\<in>set A. name c = ''code-analysis'' \<longrightarrow>
         category c = ''quality'' \<and> RuleRecommendation.confidence c = 1"
  shows "list_all2 (\<lambda>r r'. r' = r\<lparr>reason := reason r'\<rparr> \<and> (name r \<noteq> ''code-analysis'' \<longrightarrow> r' = r))
           out out'"
proof -
  let ?L = "language_rules ls" and ?L' = "language_rules ls'"
  let ?cs = "A @ ?L @ B" and ?cs' = "A @ ?L' @ B"
  let ?S = "mkRuleRecommendation ''modern-swift'' txt_swift 9 ''language_specific''"
  have h1: "name ` set ?L = name ` set ?L'"
    using language_rules_names_set[OF ls] by (rule sym)
  have subL: "name ` set ?L \<subseteq> {''modern-swift'', ''code-analysis''}"
    and subL': "name ` set ?L' \<subseteq> {''modern-swift'', ''code-analysis''}"
    by (rule language_rules_names_sub)+
  have h2: "name ` set ?L \<inter> name ` set B = {}" using subL B by auto
  have h3: "\<forall>x\<in>set ?L \<union> set ?L'. \<forall>y\<in>set ?L \<union> set ?L'. name x \<noteq> name y \<longrightarrow> weight x \<noteq> weight y"
    using language_rules_distinct_weights[of _ ls ls'] by auto
  have h4: "\<forall>x\<in>set ?L \<union> set ?L'. \<forall>y\<in>set ?L \<union> set ?L'. name x = name y \<longrightarrow> weight x = weight y"
    using language_rules_distinct_weights[of _ ls ls'] by auto
  note mb = dedup_rank_middle_block[OF out out' h1 h2 h3 h4]
  note f = dedup_rank_facts[OF out] and f' = dedup_rank_facts[OF out']
  have len: "length out = length out'"
    using mb(1) by (metis length_map)
  have fields: "category c = ''quality'' \<and> RuleRecommendation.confidence c = 1"
    if "c \<in> set (A @ language_rules l @ B)" "name c = ''code-analysis''" for c l
  proof -
    from that(1) consider "c \<in> set A" | "c \<in> set (language_rules l)" | "c \<in> set B" by auto
    then show ?thesis
    proof cases
      case 1 then show ?thesis using ca that(2) by auto
    next
      case 2
      from language_rules_members[THEN bspec, OF 2] that(2) show ?thesis
        by (auto simp: mkRuleRecommendation_def)
    next
      case 3
      then have "name c \<in> name ` set B" by (rule imageI)
      then show ?thesis using B that(2) by auto
    qed
  qed
  have swift: "c = ?S" if "c \<in> set (A @ language_rules l @ B)" "name c = ''modern-swift''" for c l
  proof -
    from that(1) consider "c \<in> set A" | "c \<in> set (language_rules l)" | "c \<in> set B" by auto
    then show ?thesis
    proof cases
      case 1
      then have "name c \<in> name ` set A" by (rule imageI)
      then show ?thesis using A that(2) by simp
    next
      case 2
      from language_rules_members[THEN bspec, OF 2] that(2) show ?thesis by auto
    next
      case 3
      then have "name c \<in> name ` set B" by (rule imageI)
      then show ?thesis using B that(2) by auto
    qed
  qed
  have rel: "r' = r\<lparr>reason := reason r'\<rparr> \<and> (name r \<noteq> ''code-analysis'' \<longrightarrow> r' = r)"
    if r: "r \<in> set out" and r': "r' \<in> set out'" and n: "name r = name r'" for r r'
  proof -
    have w: "weight r = weight r'" using mb(2)[OF r r' n] .
    have p: "placed r ?cs" and p': "placed r' ?cs'" using f(3)[OF r] f'(3)[OF r'] .
    have m: "r \<in> set ?cs" and m': "r' \<in> set ?cs'"
      using placed_mem[OF p] placed_mem[OF p'] .
    show ?thesis
    proof (cases "name r = ''code-analysis''")
      case True
      have 1: "category r = ''quality'' \<and> RuleRecommendation.confidence r = 1"
        using fields[OF m True] .
      have 2: "category r' = ''quality'' \<and> RuleRecommendation.confidence r' = 1"
        using fields[OF m'] True n by simp
      have "r' = r\<lparr>reason := reason r'\<rparr>"
        by (rule RuleRecommendation.equality) (use n w 1 2 in simp_all)
      then show ?thesis using True by simp
    next
      case nca: False
      have "r' = r"
      proof (cases "name r = ''modern-swift''")
        case True
        have "r = ?S" using swift[OF m True] .
        moreover have "r' = ?S" using swift[OF m'] True n by simp
        ultimately show ?thesis by simp
      next
        case False
        let ?Q = "\<lambda>c. name c = name r \<and> weight c = weight r"
        have e: "filter ?Q (language_rules l) = []" for l
        proof -
          have "name c \<noteq> name r" if "c \<in> set (language_rules l)" for c
          proof -
            have "name c \<in> name ` set (language_rules l)" using that by (rule imageI)
            then have "name c \<in> {''modern-swift'', ''code-analysis''}"
              using language_rules_names_sub[of l] by (rule set_mp[rotated])
            then show ?thesis using nca False by auto
          qed
          then show ?thesis by (auto simp: filter_empty_conv)
        qed
        have "r = hd (filter ?Q ?cs)" using placed_hd_filter[OF p] by simp
        moreover have "r' = hd (filter (\<lambda>c. name c = name r' \<and> weight c = weight r') ?cs')"
          using placed_hd_filter[OF p'] by simp
        then have "r' = hd (filter ?Q ?cs')" unfolding n[symmetric] w[symmetric] .
        moreover have "filter ?Q ?cs = filter ?Q ?cs'" by (simp add: e)
        ultimately show ?thesis by simp
      qed
      then show ?thesis by simp
    qed
  qed
  show ?thesis
  proof (rule list_all2_all_nthI[OF len])
    fix i assume i: "i < length out"
    then have i': "i < length out'" using len by simp
    have "map name out ! i = map name out' ! i" using mb(1) by simp
    then have n: "name (out ! i) = name (out' ! i)" using i i' by simp
    show "out' ! i = (out ! i)\<lparr>reason := reason (out' ! i)\<rparr> \<and>
        (name (out ! i) \<noteq> ''code-analysis'' \<longrightarrow> out' ! i = out ! i)"
      using rel[OF nth_mem[OF i] nth_mem[OF i'] n] .
  qed
qed

text \<open>
  Claim C8, amended. \<^verbatim>\<open>recommend_rules\<close> reads a profile only through the dictionary
  of line 414, which holds for each key the value of the last fact with that key, at
  the keys \<^verbatim>\<open>project_size\<close>, \<^verbatim>\<open>team_size\<close>, \<^verbatim>\<open>has_testing\<close> and \<^verbatim>\<open>has_git\<close>, and
  through the values of the \<^verbatim>\<open>languages\<close> facts. Two profiles that agree on those four
  dictionary entries and have the same set of language values (so every permutation of
  a profile that keeps, for each of the four keys, the value of its last fact) get
  results of the same length that agree position by position in id, weight, category
  and confidence, and in the reason text too except for \<^verbatim>\<open>code-analysis\<close>; when the
  language values also come in the same order, the results are equal.
\<close>

theorem recommend_rules_reads_last_facts_and_languages:
  "feature_dict_of fs k =
     (if filter (\<lambda>f. key f = k) fs = [] then None
      else Some (value' (last (filter (\<lambda>f. key f = k) fs)))) \<and>
   ((\<forall>k\<in>{''project_size'', ''team_size'', ''has_testing'', ''has_git''}.
        feature_dict_of fs' k = feature_dict_of fs k) \<and>
    set (map value' (filter (\<lambda>f. key f = ''languages'') fs')) =
      set (map value' (filter (\<lambda>f. key f = ''languages'') fs))
    \<longrightarrow> (\<exists>out out'. recommend_rules self fs = Inr out \<and> recommend_rules self' fs' = Inr out' \<and>
          list_all2 (\<lambda>r r'. r' = r\<lparr>reason := reason r'\<rparr> \<and>
                            (name r \<noteq> ''code-analysis'' \<longrightarrow> r' = r)) out out' \<and>
          (map value' (filter (\<lambda>f. key f = ''languages'') fs') =
             map value' (filter (\<lambda>f. key f = ''languages'') fs) \<longrightarrow> out' = out)))"
proof (rule conjI)
  show "feature_dict_of fs k =
     (if filter (\<lambda>f. key f = k) fs = [] then None
      else Some (value' (last (filter (\<lambda>f. key f = k) fs))))"
    by (rule feature_dict_of_last)
next
  show "(\<forall>k\<in>{''project_size'', ''team_size'', ''has_testing'', ''has_git''}.
        feature_dict_of fs' k = feature_dict_of fs k) \<and>
    set (map value' (filter (\<lambda>f. key f = ''languages'') fs')) =
      set (map value' (filter (\<lambda>f. key f = ''languages'') fs))
    \<longrightarrow> (\<exists>out out'. recommend_rules self fs = Inr out \<and> recommend_rules self' fs' = Inr out' \<and>
          list_all2 (\<lambda>r r'. r' = r\<lparr>reason := reason r'\<rparr> \<and>
                            (name r \<noteq> ''code-analysis'' \<longrightarrow> r' = r)) out out' \<and>
          (map value' (filter (\<lambda>f. key f = ''languages'') fs') =
             map value' (filter (\<lambda>f. key f = ''languages'') fs) \<longrightarrow> out' = out))"
  proof
    assume H: "(\<forall>k\<in>{''project_size'', ''team_size'', ''has_testing'', ''has_git''}.
        feature_dict_of fs' k = feature_dict_of fs k) \<and>
      set (map value' (filter (\<lambda>f. key f = ''languages'') fs')) =
        set (map value' (filter (\<lambda>f. key f = ''languages'') fs))"
    let ?ls = "map value' (filter (\<lambda>f. key f = ''languages'') fs)"
    let ?ls' = "map value' (filter (\<lambda>f. key f = ''languages'') fs')"
    let ?A = "core_rules @ size_rules (dict_get (feature_dict_of fs) ''project_size'' ''small'')"
    let ?B = "team_rules (dict_get (feature_dict_of fs) ''team_size'' ''solo'') @
      toolchain_rules (feature_dict_of fs) @ [tracker_rule]"
    from H have d: "feature_dict_of fs' ''project_size'' = feature_dict_of fs ''project_size''"
      "feature_dict_of fs' ''team_size'' = feature_dict_of fs ''team_size''"
      "feature_dict_of fs' ''has_testing'' = feature_dict_of fs ''has_testing''"
      "feature_dict_of fs' ''has_git'' = feature_dict_of fs ''has_git''"
      and ls: "set ?ls' = set ?ls"
      by simp_all
    have tc: "toolchain_rules (feature_dict_of fs') = toolchain_rules (feature_dict_of fs)"
      using d(3,4) by (rule toolchain_rules_cong)
    have cs: "recommendations fs = ?A @ language_rules ?ls @ ?B"
      by (rule recommendations_blocks)
    have cs': "recommendations fs' = ?A @ language_rules ?ls' @ ?B"
      unfolding recommendations_blocks[of fs'] dict_get_def d tc ..
    obtain out where out: "dedup_rank (?A @ language_rules ?ls @ ?B) = Inr out"
      by (simp add: dedup_rank_Inr)
    obtain out' where out': "dedup_rank (?A @ language_rules ?ls' @ ?B) = Inr out'"
      by (simp add: dedup_rank_Inr)
    have rel: "list_all2 (\<lambda>r r'. r' = r\<lparr>reason := reason r'\<rparr> \<and>
                            (name r \<noteq> ''code-analysis'' \<longrightarrow> r' = r)) out out'"
      using out out' ls head_block_names tail_block_names head_block_code_analysis
      by (rule dedup_rank_language_block)
    have r1: "recommend_rules self fs = Inr out"
      unfolding recommend_rules_def cs by (rule out)
    have r2: "recommend_rules self' fs' = Inr out'"
      unfolding recommend_rules_def cs' by (rule out')
    have same: "out' = out" if "?ls' = ?ls"
      using out out' unfolding that by simp
    show "\<exists>out out'. recommend_rules self fs = Inr out \<and> recommend_rules self' fs' = Inr out' \<and>
          list_all2 (\<lambda>r r'. r' = r\<lparr>reason := reason r'\<rparr> \<and>
                            (name r \<noteq> ''code-analysis'' \<longrightarrow> r' = r)) out out' \<and>
          (?ls' = ?ls \<longrightarrow> out' = out)"
      using r1 r2 rel same by (intro exI conjI impI)
  qed
qed

theorem recommend_rules_reads_last_facts_and_languages_witness:
  "feature_dict_of profile_a ''project_size'' = Some ''small'' \<and>
   (\<exists>out out'. recommend_rules default_engine profile_a = Inr out \<and>
      recommend_rules default_engine profile_b = Inr out' \<and>
      list_all2 (\<lambda>r r'. r' = r\<lparr>reason := reason r'\<rparr> \<and>
                        (name r \<noteq> ''code-analysis'' \<longrightarrow> r' = r)) out out' \<and>
      map name out =
        [''implement-task'', ''bug-fix'', ''modern-swift'', ''quick-wins'', ''commit'',
         ''clean'', ''code-analysis'', ''rule-effectiveness-tracker''] \<and>
      map reason (filter (\<lambda>r. name r = ''code-analysis'') out) = [''python'' @ txt_lang_suffix] \<and>
      map reason (filter (\<lambda>r. name r = ''code-analysis'') out') = [''java'' @ txt_lang_suffix])"
proof -
  note T = recommend_rules_reads_last_facts_and_languages
    [of profile_a "''project_size''" profile_b default_engine default_engine]
  have last: "feature_dict_of profile_a ''project_size'' = Some ''small''"
    using T[THEN conjunct1] by (simp add: profile_a_def mkProjectFeature_def)
  have d: "\<forall>k\<in>{''project_size'', ''team_size'', ''has_testing'', ''has_git''}.
        feature_dict_of profile_b k = feature_dict_of profile_a k"
    by (simp add: profile_a_def profile_b_def feature_dict_of_def mkProjectFeature_def)
  have l: "set (map value' (filter (\<lambda>f. key f = ''languages'') profile_b)) =
      set (map value' (filter (\<lambda>f. key f = ''languages'') profile_a))"
    by (auto simp: profile_a_def profile_b_def mkProjectFeature_def)
  from T[THEN conjunct2, THEN mp, OF conjI[OF d l]]
  obtain out out' where r1: "recommend_rules default_engine profile_a = Inr out"
    and r2: "recommend_rules default_engine profile_b = Inr out'"
    and rel: "list_all2 (\<lambda>r r'. r' = r\<lparr>reason := reason r'\<rparr> \<and>
                        (name r \<noteq> ''code-analysis'' \<longrightarrow> r' = r)) out out'"
    by (elim exE conjE) (rule that; assumption)
  have "\<exists>o1. recommend_rules default_engine profile_a = Inr o1 \<and>
      map name o1 =
        [''implement-task'', ''bug-fix'', ''modern-swift'', ''quick-wins'', ''commit'',
         ''clean'', ''code-analysis'', ''rule-effectiveness-tracker''] \<and>
      map reason (filter (\<lambda>r. name r = ''code-analysis'') o1) = [''python'' @ txt_lang_suffix]"
    by (simp add: recommend_rules_def profile_a_def rule_block_defs dedup_rank_defs)
  then obtain o1 where o1: "recommend_rules default_engine profile_a = Inr o1"
      "map name o1 =
        [''implement-task'', ''bug-fix'', ''modern-swift'', ''quick-wins'', ''commit'',
         ''clean'', ''code-analysis'', ''rule-effectiveness-tracker'']"
      "map reason (filter (\<lambda>r. name r = ''code-analysis'') o1) = [''python'' @ txt_lang_suffix]"
    by (elim exE conjE)
  from r1 o1(1) have e1: "o1 = out" by simp
  have "\<exists>o2. recommend_rules default_engine profile_b = Inr o2 \<and>
      map reason (filter (\<lambda>r. name r = ''code-analysis'') o2) = [''java'' @ txt_lang_suffix]"
    by (simp add: recommend_rules_def profile_b_def rule_block_defs dedup_rank_defs)
  then obtain o2 where o2: "recommend_rules default_engine profile_b = Inr o2"
      "map reason (filter (\<lambda>r. name r = ''code-analysis'') o2) = [''java'' @ txt_lang_suffix]"
    by (elim exE conjE)
  from r2 o2(1) have e2: "o2 = out'" by simp
  have "\<exists>out out'. recommend_rules default_engine profile_a = Inr out \<and>
      recommend_rules default_engine profile_b = Inr out' \<and>
      list_all2 (\<lambda>r r'. r' = r\<lparr>reason := reason r'\<rparr> \<and>
                        (name r \<noteq> ''code-analysis'' \<longrightarrow> r' = r)) out out' \<and>
      map name out =
        [''implement-task'', ''bug-fix'', ''modern-swift'', ''quick-wins'', ''commit'',
         ''clean'', ''code-analysis'', ''rule-effectiveness-tracker''] \<and>
      map reason (filter (\<lambda>r. name r = ''code-analysis'') out) = [''python'' @ txt_lang_suffix] \<and>
      map reason (filter (\<lambda>r. name r = ''code-analysis'') out') = [''java'' @ txt_lang_suffix]"
    using r1 r2 rel o1(2,3)[unfolded e1] o2(2)[unfolded e2]
    by (intro exI conjI)
  with last show ?thesis by (rule conjI)
qed

section \<open>The working directory\<close>






end
